theory Spec2Isabelle
  imports Complex_Main
begin


section \<open>JavaScript numbers\<close>

text \<open>
  A JavaScript number is a double: a finite value, one of the two infinities, or NaN. A
  finite value is modelled by the real number it denotes. Comparison, \<open>Math.min\<close>,
  \<open>Math.max\<close> and the decimal rendering of \<open>toFixed\<close> are exact operations on that
  value; \<open>+\<close>, \<open>-\<close>, \<open>*\<close> and \<open>/\<close> round their exact result to the nearest double. The
  two zeros are one value, \<open>Fin 0\<close>: nothing modelled here divides by a computed number
  or shows the sign of a zero.
\<close>

datatype jsnum = Fin real | PosInf | NegInf | NaN


fun Math_min :: "jsnum \<Rightarrow> jsnum \<Rightarrow> jsnum" where
  "Math_min NaN b = NaN"
| "Math_min a NaN = NaN"
| "Math_min NegInf b = NegInf"
| "Math_min a NegInf = NegInf"
| "Math_min PosInf b = b"
| "Math_min a PosInf = a"
| "Math_min (Fin x) (Fin y) = Fin (min x y)"

fun Math_max :: "jsnum \<Rightarrow> jsnum \<Rightarrow> jsnum" where
  "Math_max NaN b = NaN"
| "Math_max a NaN = NaN"
| "Math_max PosInf b = PosInf"
| "Math_max a PosInf = PosInf"
| "Math_max NegInf b = b"
| "Math_max a NegInf = a"
| "Math_max (Fin x) (Fin y) = Fin (max x y)"

fun js_neg :: "jsnum \<Rightarrow> jsnum" where
  "js_neg (Fin x) = Fin (- x)"
| "js_neg PosInf = NegInf"
| "js_neg NegInf = PosInf"
| "js_neg NaN = NaN"

subsection \<open>Rounding to a double\<close>

text \<open>
  The doubles (IEEE 754 binary64) are the multiples \<open>n * q\<close> of a power of two \<open>q\<close> with
  \<open>|n| < 2^53\<close>, where \<open>q\<close> is at least \<open>Number.MIN_VALUE = 2^-1074\<close> and at most \<open>2^971\<close>.
  The spacing of the doubles around a magnitude \<open>a\<close> is \<open>ulp64 a\<close>: the power of two \<open>q\<close>
  with \<open>2^52 * q \<le> a < 2^53 * q\<close>, and \<open>2^-1074\<close> below \<open>2^-1022\<close>, where the doubles are
  evenly spaced. It is found from \<open>q = 1\<close> by halving (at most 1074 times) or doubling (at
  most 971 times).
\<close>

definition MIN_VALUE :: real where
  "MIN_VALUE = 1 / 2 ^ 1074"

fun ulp_down :: "nat \<Rightarrow> real \<Rightarrow> real \<Rightarrow> real" where
  "ulp_down 0 a q = q"
| "ulp_down (Suc n) a q = (if a < 2 ^ 52 * q then ulp_down n a (q / 2) else q)"

fun ulp_up :: "nat \<Rightarrow> real \<Rightarrow> real \<Rightarrow> real" where
  "ulp_up 0 a q = q"
| "ulp_up (Suc n) a q = (if 2 ^ 53 * q \<le> a then ulp_up n a (2 * q) else q)"

definition ulp64 :: "real \<Rightarrow> real" where
  "ulp64 a = (if a < 2 ^ 52 then ulp_down 1074 a 1 else ulp_up 971 a 1)"

text \<open>The nearest integer, the even one of the two when \<open>y\<close> lies half way.\<close>

definition rne :: "real \<Rightarrow> int" where
  "rne y = (let f = \<lfloor>y\<rfloor>; d = y - of_int f
            in if d < 1 / 2 then f else if 1 / 2 < d then f + 1
               else if even f then f else f + 1)"

text \<open>
  The result of an arithmetic operation whose exact value is \<open>x\<close>: the nearest multiple
  of the spacing at \<open>x\<close> (round to nearest, ties to even), and an infinity when that
  reaches \<open>2^1024\<close>.
\<close>

definition nearest64 :: "real \<Rightarrow> real" where
  "nearest64 x = (let q = ulp64 \<bar>x\<bar> in of_int (rne (x / q)) * q)"

definition round64 :: "real \<Rightarrow> jsnum" where
  "round64 x =
     (let y = nearest64 x
      in if 2 ^ 1024 \<le> \<bar>y\<bar> then (if 0 < x then PosInf else NegInf) else Fin y)"

subsection \<open>Arithmetic\<close>

fun js_add :: "jsnum \<Rightarrow> jsnum \<Rightarrow> jsnum" where
  "js_add NaN b = NaN"
| "js_add a NaN = NaN"
| "js_add PosInf NegInf = NaN"
| "js_add NegInf PosInf = NaN"
| "js_add PosInf b = PosInf"
| "js_add a PosInf = PosInf"
| "js_add NegInf b = NegInf"
| "js_add a NegInf = NegInf"
| "js_add (Fin x) (Fin y) = round64 (x + y)"

definition js_sub :: "jsnum \<Rightarrow> jsnum \<Rightarrow> jsnum" where
  "js_sub a b = js_add a (js_neg b)"

fun js_mul :: "jsnum \<Rightarrow> jsnum \<Rightarrow> jsnum" where
  "js_mul NaN b = NaN"
| "js_mul a NaN = NaN"
| "js_mul (Fin x) (Fin y) = round64 (x * y)"
| "js_mul (Fin x) PosInf = (if x = 0 then NaN else if 0 < x then PosInf else NegInf)"
| "js_mul (Fin x) NegInf = (if x = 0 then NaN else if 0 < x then NegInf else PosInf)"
| "js_mul PosInf (Fin y) = (if y = 0 then NaN else if 0 < y then PosInf else NegInf)"
| "js_mul NegInf (Fin y) = (if y = 0 then NaN else if 0 < y then NegInf else PosInf)"
| "js_mul PosInf PosInf = PosInf"
| "js_mul PosInf NegInf = NegInf"
| "js_mul NegInf PosInf = NegInf"
| "js_mul NegInf NegInf = PosInf"

text \<open>
  Division. A zero divisor is taken for the positive zero (a negative zero gives the
  opposite infinity); the one division modelled here is by the width of a box that has
  been tested not to be zero.
\<close>

fun js_div :: "jsnum \<Rightarrow> jsnum \<Rightarrow> jsnum" where
  "js_div NaN b = NaN"
| "js_div a NaN = NaN"
| "js_div (Fin x) (Fin y) =
     (if y = 0 then (if x = 0 then NaN else if 0 < x then PosInf else NegInf)
      else round64 (x / y))"
| "js_div (Fin x) PosInf = Fin 0"
| "js_div (Fin x) NegInf = Fin 0"
| "js_div PosInf (Fin y) = (if 0 \<le> y then PosInf else NegInf)"
| "js_div NegInf (Fin y) = (if 0 \<le> y then NegInf else PosInf)"
| "js_div PosInf PosInf = NaN"
| "js_div PosInf NegInf = NaN"
| "js_div NegInf PosInf = NaN"
| "js_div NegInf NegInf = NaN"

subsection \<open>Decimal rendering\<close>






section \<open>App.js: formatScore\<close>












section \<open>MultiResizableLayout.js: dragging a resize handle\<close>

text \<open>
  \<^verbatim>\<open>const clamp = (n, lo, hi) => Math.max(lo, Math.min(hi, n));\<close>
\<close>

definition clamp :: "jsnum \<Rightarrow> jsnum \<Rightarrow> jsnum \<Rightarrow> jsnum" where
  "clamp n lo hi = Math_max lo (Math_min hi n)"

text \<open>
  Reading an array of numbers past its end gives \<open>undefined\<close>, which every arithmetic
  operation turns into NaN; writing past its end extends the array (the holes in
  between read as \<open>undefined\<close> again).
\<close>

definition js_nth :: "jsnum list \<Rightarrow> nat \<Rightarrow> jsnum" where
  "js_nth xs i = (if i < length xs then xs ! i else NaN)"

definition js_set :: "jsnum list \<Rightarrow> nat \<Rightarrow> jsnum \<Rightarrow> jsnum list" where
  "js_set xs i v =
     (if i < length xs then xs[i := v] else xs @ replicate (i - length xs) NaN @ [v])"

text \<open>\<open>dragStart.current\<close>: the pointer position and the widths when the drag began.\<close>

record drag_start =
  ds_x :: real
  ds_widths :: "jsnum list"

text \<open>
  \<open>handleMouseMove\<close>. \<open>dragIdx\<close> is the handle between panes \<open>dragIdx\<close> and
  \<open>dragIdx + 1\<close> (\<open>None\<close> for \<open>null\<close>); \<open>rectWidth\<close> is the width of the container's
  bounding box (\<open>None\<close> when there is no container). The pointer positions and the
  width of the box are finite numbers. The result is the array handed to
  \<open>onWidthsChange\<close>, \<open>None\<close> when the handler returns before calling it.
  \<^verbatim>\<open>
  if (dragIdx === null || !containerRef.current) return;
  const rect = containerRef.current.getBoundingClientRect();
  if (!rect.width) return;
  const dxPct = ((e.clientX - dragStart.current.x) / rect.width) * 100;
  const startW = dragStart.current.widths.slice();
  const left = startW[dragIdx];
  const right = startW[dragIdx + 1];
  const total = left + right;
  const newLeft = clamp(left + dxPct, minPaneWidthPct, total - minPaneWidthPct);
  const newRight = total - newLeft;
  const next = startW.slice();
  next[dragIdx] = newLeft;
  next[dragIdx + 1] = newRight;
  onWidthsChange && onWidthsChange(next);
  \<close>
\<close>

definition handleMouseMove ::
  "nat option \<Rightarrow> real option \<Rightarrow> drag_start \<Rightarrow> jsnum \<Rightarrow> real \<Rightarrow> jsnum list option" where
  "handleMouseMove dragIdx rectWidth dragStart minPaneWidthPct clientX =
     (case dragIdx of
        None \<Rightarrow> None
      | Some i \<Rightarrow>
          (case rectWidth of
             None \<Rightarrow> None
           | Some w \<Rightarrow>
               if w = 0 then None
               else
                 let dxPct = js_mul (js_div (js_sub (Fin clientX) (Fin (ds_x dragStart))) (Fin w))
                               (Fin 100);
                     startW = ds_widths dragStart;
                     left = js_nth startW i;
                     right = js_nth startW (i + 1);
                     total = js_add left right;
                     newLeft = clamp (js_add left dxPct) minPaneWidthPct
                                 (js_sub total minPaneWidthPct);
                     newRight = js_sub total newLeft;
                     next = js_set (js_set startW i newLeft) (i + 1) newRight
                 in Some next))"

section \<open>App.js: the state of the page\<close>

text \<open>A JSON value, for the payloads the page stores or hands on without looking inside.\<close>

datatype json =
    J_null
  | J_bool bool
  | J_num int
  | J_str string
  | J_arr "json list"
  | J_obj "(string \<times> json) list"

text \<open>
  A string taken from a JSON object is the empty string when the key is absent:
  \<open>x || null\<close> and \<open>if (x)\<close> treat both alike.
\<close>

definition or_null :: "string \<Rightarrow> string option" where
  "or_null s = (if s = '''' then None else Some s)"

text \<open>One trace event as \<open>/activity\<close> delivers it.\<close>

record activity_event =
  ev_id :: nat
  ev_ts :: string
  ev_event :: string
  ev_fields :: json

text \<open>One line of the Activity panel.\<close>

record feed_item =
  fi_ts :: string
  fi_event :: string
  fi_fields :: json
  fi_kind :: string
  fi_badge :: string
  fi_text :: "string option"

text \<open>
  The helpers that turn an event into its text, kind and badge (\<open>formatActivityEvent\<close>,
  which returns \<open>null\<close> for an event it does not show, \<open>activityKind\<close>,
  \<open>activityBadge\<close>) only format; they are parameters of the model.
\<close>

record renderers =
  formatActivityEvent :: "activity_event \<Rightarrow> string option"
  activityKind :: "activity_event \<Rightarrow> string"
  activityBadge :: "activity_event \<Rightarrow> string"

record message =
  m_type :: string
  m_content :: string
  m_reasoning :: "string option"
  m_agentName :: "string option"
  m_status :: "string option"
  m_uid :: "string option"
  m_ts :: string

record sources_data =
  src_run_id :: "string option"
  src_updated_at :: "string option"
  src_sources :: "json list"

record report_status =
  rep_status :: string
  rep_report :: "string option"
  rep_error :: "string option"

record run_file_view =
  rfv_content :: string
  rfv_truncated :: bool

text \<open>
  The \<open>useState\<close> variables of \<open>App\<close> that the handlers below read or write.
  (\<open>responseData\<close>, the settings and the layout are left out: no handler modelled here
  decides anything on them.)
\<close>

record ui_state =
  query :: string
  messages :: "message list"
  error :: "string option"
  status :: string
  isLoading :: bool
  isGenerating :: bool
  isPaused :: bool
  queueLength :: nat
  pendingUids :: "string list"
  plan :: "json list option"
  planGoal :: "string option"
  planCurrentStep :: "nat option"
  agentType :: "string option"
  agentName :: "string option"
  runId :: "string option"
  outputDir :: "string option"
  activitySinceId :: nat
  activityFeed :: "feed_item list"
  sourcesData :: sources_data
  reportStatus :: report_status
  reportGoal :: string
  traceRuns :: "json list"
  runFilesRunId :: string
  runFiles :: "json list"
  runFileName :: string
  runFileView :: run_file_view
  uiSessionId :: "string option"

text \<open>The state \<open>App\<close> starts in.\<close>

definition initial_ui :: ui_state where
  "initial_ui =
     \<lparr>query = '''', messages = [], error = None, status = ''Agents ready'',
      isLoading = False, isGenerating = False, isPaused = False, queueLength = 0,
      pendingUids = [], plan = None, planGoal = None, planCurrentStep = None,
      agentType = None, agentName = None, runId = None, outputDir = None,
      activitySinceId = 0, activityFeed = [],
      sourcesData = \<lparr>src_run_id = None, src_updated_at = None, src_sources = []\<rparr>,
      reportStatus = \<lparr>rep_status = ''none'', rep_report = None, rep_error = None\<rparr>,
      reportGoal = '''', traceRuns = [], runFilesRunId = '''', runFiles = [], runFileName = '''',
      runFileView = \<lparr>rfv_content = '''', rfv_truncated = False\<rparr>, uiSessionId = None\<rparr>"

text \<open>
  \<open>s.trim() === ""\<close>: the string holds nothing but white space. A string is a list of
  characters below U+0100; of these, \<open>trim\<close> strips the space, the tab, the line feed,
  the vertical tab, the form feed, the carriage return and the no-break space.
\<close>

definition js_blank :: "string \<Rightarrow> bool" where
  "js_blank s =
     list_all (\<lambda>c. c \<in> set [CHR '' '', CHR 0x09, CHR 0x0A, CHR 0x0B, CHR 0x0C, CHR 0x0D,
                              CHR 0xA0]) s"

section \<open>App.js: polling the activity of a run\<close>

text \<open>The query of a \<open>GET /activity\<close> and the body of its answer.\<close>

record activity_request =
  ar_run_id :: "string option"
  ar_since_id :: nat
  ar_limit :: nat

record activity_data =
  ad_events :: "activity_event list option"
  ad_next_since_id :: "nat option"
  ad_latest_id :: "nat option"

text \<open>
  \<open>fetchActivity\<close>, up to its \<open>await\<close>: the request is built from the run and the cursor
  the page holds (\<open>if (runId) params.set("run_id", runId)\<close>,
  \<open>since_id = String(activitySinceId || 0)\<close>, \<open>limit = "200"\<close>).
\<close>

definition fetchActivity_request :: "ui_state \<Rightarrow> activity_request" where
  "fetchActivity_request st =
     \<lparr>ar_run_id = (case runId st of None \<Rightarrow> None | Some r \<Rightarrow> or_null r),
      ar_since_id = activitySinceId st,
      ar_limit = 200\<rparr>"

text \<open>
  The line an event becomes:
  \<^verbatim>\<open>{ ts: ev.ts || nowIso(), event: ev.event, fields: ev.fields || {},
    kind: activityKind(ev), badge: activityBadge(ev), text: formatActivityEvent(ev) }\<close>
\<close>

definition js_falsy :: "json \<Rightarrow> bool" where
  "js_falsy j = (j = J_null \<or> j = J_bool False \<or> j = J_num 0 \<or> j = J_str '''')"

definition toFeedItem :: "renderers \<Rightarrow> string \<Rightarrow> activity_event \<Rightarrow> feed_item" where
  "toFeedItem h nowIso ev =
     \<lparr>fi_ts = (if ev_ts ev = '''' then nowIso else ev_ts ev),
      fi_event = ev_event ev,
      fi_fields = (if js_falsy (ev_fields ev) then J_obj [] else ev_fields ev),
      fi_kind = activityKind h ev,
      fi_badge = activityBadge h ev,
      fi_text = formatActivityEvent h ev\<rparr>"

text \<open>\<open>x && typeof x.text === "string" && x.text.trim() !== ""\<close>\<close>

definition shown :: "feed_item \<Rightarrow> bool" where
  "shown x = (case fi_text x of None \<Rightarrow> False | Some t \<Rightarrow> \<not> js_blank t)"

text \<open>
  \<open>fetchActivity\<close>, from its \<open>await\<close> on. The answer is \<open>None\<close> when the request fails
  or rendering an event throws: the \<open>catch\<close> ignores it, and nothing has been set yet.
  \<^verbatim>\<open>
  const data = res.data || {};
  const events = Array.isArray(data.events) ? data.events : [];
  if (events.length > 0) {
    const newItems = events.map(...).filter(...);
    if (newItems.length > 0) {
      setActivityFeed((prev) => {
        const merged = [...prev, ...newItems];
        return merged.slice(Math.max(0, merged.length - 200));
      });
    }
  }
  if (typeof data.next_since_id === "number") {
    setActivitySinceId(data.next_since_id);
  }
  \<close>
  (\<open>length merged - 200\<close> on natural numbers is \<open>Math.max(0, merged.length - 200)\<close>;
  \<open>newItems\<close> is empty when \<open>events\<close> is, so one test stands for the two.)
\<close>

definition newItems_of :: "renderers \<Rightarrow> string \<Rightarrow> activity_data \<Rightarrow> feed_item list" where
  "newItems_of h nowIso data =
     (let events = (case ad_events data of Some es \<Rightarrow> es | None \<Rightarrow> [])
      in filter shown (map (toFeedItem h nowIso) events))"

definition fetchActivity_response ::
  "renderers \<Rightarrow> string \<Rightarrow> ui_state \<Rightarrow> activity_data option \<Rightarrow> ui_state" where
  "fetchActivity_response h nowIso st res =
     (case res of
        None \<Rightarrow> st
      | Some data \<Rightarrow>
          let newItems = newItems_of h nowIso data;
              st1 = (if length newItems > 0
                     then st\<lparr>activityFeed :=
                            (let merged = activityFeed st @ newItems
                             in drop (length merged - 200) merged)\<rparr>
                     else st)
          in (case ad_next_since_id data of
                Some n \<Rightarrow> st1\<lparr>activitySinceId := n\<rparr>
              | None \<Rightarrow> st1))"

text \<open>
  \<open>syncActivityCursorToLatest(rid)\<close>: a request for one event of run \<open>rid\<close> from the
  start, and the cursor set to the \<open>latest_id\<close> of the answer when it is a number.
\<close>

definition syncActivityCursorToLatest_request :: "string option \<Rightarrow> activity_request" where
  "syncActivityCursorToLatest_request rid =
     \<lparr>ar_run_id = (case rid of None \<Rightarrow> None | Some r \<Rightarrow> or_null r),
      ar_since_id = 0,
      ar_limit = 1\<rparr>"

definition syncActivityCursorToLatest_response ::
  "ui_state \<Rightarrow> activity_data option \<Rightarrow> ui_state" where
  "syncActivityCursorToLatest_response st res =
     (case res of
        None \<Rightarrow> st
      | Some data \<Rightarrow>
          (case ad_latest_id data of
             Some n \<Rightarrow> st\<lparr>activitySinceId := n\<rparr>
           | None \<Rightarrow> st))"

section \<open>App.js: polling the sources\<close>

text \<open>
  The body of the answer of \<open>GET /sources\<close>, as far as \<open>fetchSources\<close> reads it (a
  string is empty when the key is absent; \<open>sa_sources\<close> is \<open>None\<close> when \<open>sources\<close> is not
  an array).
\<close>

record sources_answer =
  sa_run_id :: string
  sa_updated_at :: string
  sa_sources :: "json list option"

text \<open>
  \<open>fetchSources\<close> asks for the sources of the run shown when it is called, and sends
  nothing when no run is shown (\<open>if (!runId) return;\<close>). Of an answer that holds an
  array of sources it makes the sources shown; a failed request is ignored. The answer
  comes later: \<open>req\<close> is the request that was sent, with the run the page showed then
  (the \<open>runId\<close> of the closure), and \<open>st\<close> is the state of the page when the answer
  arrives.
  \<^verbatim>\<open>
  if (data && Array.isArray(data.sources)) {
    setSourcesData({ run_id: data.run_id || runId, updated_at: data.updated_at || null,
                     sources: data.sources });
  }
  \<close>
\<close>

definition fetchSources_request :: "ui_state \<Rightarrow> string option" where
  "fetchSources_request st = (case runId st of None \<Rightarrow> None | Some r \<Rightarrow> or_null r)"

definition fetchSources_response ::
  "string option \<Rightarrow> ui_state \<Rightarrow> sources_answer option \<Rightarrow> ui_state" where
  "fetchSources_response req st res =
     (case req of
        None \<Rightarrow> st
      | Some r \<Rightarrow>
          (case res of
             None \<Rightarrow> st
           | Some data \<Rightarrow>
               (case sa_sources data of
                  None \<Rightarrow> st
                | Some srcs \<Rightarrow>
                    st\<lparr>sourcesData :=
                         \<lparr>src_run_id = Some (if sa_run_id data = '''' then r else sa_run_id data),
                          src_updated_at = or_null (sa_updated_at data),
                          src_sources = srcs\<rparr>\<rparr>)))"

section \<open>App.js: polling the status\<close>

text \<open>The body of the answer of \<open>GET /status\<close>, as far as \<open>fetchStatus\<close> reads it.\<close>

record status_data =
  sd_is_generating :: bool
  sd_queue_length :: nat
  sd_paused :: bool
  sd_current_status :: string
  sd_agent_type :: string
  sd_agent_name :: string
  sd_run_id :: string
  sd_output_dir :: string
  sd_plan_goal :: string
  sd_plan_current_step :: "nat option"
  sd_plan :: "json list option"
  sd_ui_session_id :: string

text \<open>
  What \<open>fetchStatus\<close> sets from an answer. \<open>shown_run\<close> is the run the page showed when the
  poll was sent (the \<open>runId\<close> of the closure), \<open>st\<close> the state of the page when the
  answer arrives. When the run reported is not \<open>shown_run\<close>, it also starts
  \<open>syncActivityCursorToLatest(nextRunId)\<close>: \<open>fetchStatus_sync\<close> is the request that goes
  out then.
  \<^verbatim>\<open>
  setIsGenerating(!!data.is_generating);
  setQueueLength(data.queue_length || 0);
  setIsPaused(!!data.paused);
  if (data.current_status) { setStatus(data.current_status); }
  setAgentType(data.agent_type || null);
  setAgentName(data.agent_name || null);
  const nextRunId = data.run_id || null;
  if (nextRunId !== runId) {
    setActivitySinceId(0);
    setActivityFeed([]);
    syncActivityCursorToLatest(nextRunId);
    setSourcesData({ run_id: nextRunId, updated_at: null, sources: [] });
    setReportStatus({ status: "none", report: null, error: null });
  }
  setRunId(nextRunId);
  setOutputDir(data.output_dir || null);
  setPlanGoal(data.plan_goal || null);
  setPlanCurrentStep(typeof data.plan_current_step === "number" ? data.plan_current_step : null);
  setPlan(Array.isArray(data.plan) ? data.plan : null);
  setUiSessionId(data.ui_session_id || null);
  \<close>
\<close>

definition fetchStatus_response ::
  "string option \<Rightarrow> ui_state \<Rightarrow> status_data option \<Rightarrow> ui_state" where
  "fetchStatus_response shown_run st res =
     (case res of
        None \<Rightarrow> st
      | Some data \<Rightarrow>
          let st1 = st\<lparr>isGenerating := sd_is_generating data,
                        queueLength := sd_queue_length data,
                        isPaused := sd_paused data\<rparr>;
              st2 = (if sd_current_status data \<noteq> ''''
                     then st1\<lparr>status := sd_current_status data\<rparr> else st1);
              st3 = st2\<lparr>agentType := or_null (sd_agent_type data),
                         agentName := or_null (sd_agent_name data)\<rparr>;
              nextRunId = or_null (sd_run_id data);
              st4 = (if nextRunId \<noteq> shown_run
                     then st3\<lparr>activitySinceId := 0,
                              activityFeed := [],
                              sourcesData := \<lparr>src_run_id = nextRunId, src_updated_at = None,
                                               src_sources = []\<rparr>,
                              reportStatus := \<lparr>rep_status = ''none'', rep_report = None,
                                                rep_error = None\<rparr>\<rparr>
                     else st3)
          in st4\<lparr>runId := nextRunId,
                  outputDir := or_null (sd_output_dir data),
                  planGoal := or_null (sd_plan_goal data),
                  planCurrentStep := sd_plan_current_step data,
                  plan := sd_plan data,
                  uiSessionId := or_null (sd_ui_session_id data)\<rparr>)"

definition fetchStatus_sync :: "string option \<Rightarrow> status_data option \<Rightarrow> activity_request option" where
  "fetchStatus_sync shown_run res =
     (case res of
        None \<Rightarrow> None
      | Some data \<Rightarrow>
          let nextRunId = or_null (sd_run_id data)
          in if nextRunId \<noteq> shown_run
             then Some (syncActivityCursorToLatest_request nextRunId) else None)"

section \<open>App.js: starting a new run\<close>

text \<open>
  \<open>handleNewRun\<close> posts \<open>/new_run\<close>, ignores a failure of that request
  (\<open>// ignore; still reset UI locally\<close>), resets the page, and reloads the list of runs
  with \<open>fetchRuns\<close>. These are the only requests it makes.
\<close>

datatype http_request = POST_new_run | GET_runs

definition handleNewRun_requests :: "http_request list" where
  "handleNewRun_requests = [POST_new_run, GET_runs]"

text \<open>
  \<open>fetchRuns\<close> stores the runs the backend lists; the list is emptied when the answer
  holds no array of runs, and kept when the request fails.
  \<^verbatim>\<open>
  const runs = (res.data && res.data.runs) || [];
  setTraceRuns(Array.isArray(runs) ? runs : []);
  \<close>
\<close>

datatype runs_answer = RunsFailed | RunsNotArray | Runs "json list"

definition fetchRuns_response :: "ui_state \<Rightarrow> runs_answer \<Rightarrow> ui_state" where
  "fetchRuns_response st res =
     (case res of
        RunsFailed \<Rightarrow> st
      | RunsNotArray \<Rightarrow> st\<lparr>traceRuns := []\<rparr>
      | Runs rs \<Rightarrow> st\<lparr>traceRuns := rs\<rparr>)"

text \<open>
  \<^verbatim>\<open>
  setMessages([]); setResponseData(null); setError(null); setStatus("Agents ready");
  setIsLoading(false); setIsGenerating(false); setIsPaused(false); setQueueLength(0);
  setPendingUids([]); setPlan(null); setPlanGoal(null); setPlanCurrentStep(null);
  setRunId(null); setOutputDir(null); setActivityFeed([]); setActivitySinceId(0);
  setRunFilesRunId(""); setRunFiles([]); setRunFileName("");
  setRunFileView({ content: "", truncated: false });
  setReportStatus({ status: "none", report: null, error: null });
  fetchRuns();
  \<close>
\<close>

definition handleNewRun :: "ui_state \<Rightarrow> runs_answer \<Rightarrow> ui_state" where
  "handleNewRun st runs =
     fetchRuns_response
       (st\<lparr>messages := [], error := None, status := ''Agents ready'',
           isLoading := False, isGenerating := False, isPaused := False,
           queueLength := 0, pendingUids := [], plan := None, planGoal := None,
           planCurrentStep := None, runId := None, outputDir := None,
           activityFeed := [], activitySinceId := 0,
           runFilesRunId := '''', runFiles := [], runFileName := '''',
           runFileView := \<lparr>rfv_content = '''', rfv_truncated = False\<rparr>,
           reportStatus := \<lparr>rep_status = ''none'', rep_report = None, rep_error = None\<rparr>\<rparr>)
       runs"

section \<open>App.js: loading a saved run\<close>

text \<open>
  The two files \<open>loadFullRun\<close> reads: the sources of a run,
  \<open>{run_id, updated_at, sources}\<close>, and a full save as \<open>saveFullRun\<close> writes it
  (\<open>version: 1\<close>), which holds such sources together with the activity feed, the
  messages, the goal and the plan. A string is empty when the key is absent; a list is
  \<open>None\<close> when the key is absent or holds no array.
\<close>

record saved_sources =
  sv_run_id :: string
  sv_updated_at :: string
  sv_sources :: "json list option"

record full_run =
  fr_run_id :: string
  fr_sources :: "saved_sources option"
  fr_activity :: "feed_item list option"
  fr_messages :: "message list option"
  fr_goal :: string
  fr_plan :: "json list option"
  fr_planGoal :: string

datatype run_file = FullRun full_run | SourcesOnly saved_sources

text \<open>The answer of \<open>POST /sources_upload\<close>: the request throws, or \<open>result.ok\<close>.\<close>

datatype upload_answer = UploadThrown | UploadData bool

text \<open>
  \<open>loadFullRun(file)\<close>. The file is \<open>None\<close> when none is chosen or when reading or
  parsing it throws; then, and when the upload throws, nothing is set. \<open>stamp\<close> is
  \<open>Date.now()\<close>. (The alerts and the log lines are left out.)
  \<^verbatim>\<open>
  const isFullRun = data.version === 1;
  const targetRunId = data.run_id || data.sources?.run_id || `imported-${Date.now()}`;
  ...
  const result = res.data || {};
  if (result.ok || isFullRun) {
    if (isFullRun && data.sources) {
      setSourcesData({ run_id: targetRunId,
        updated_at: data.sources.updated_at || new Date().toISOString(),
        sources: data.sources.sources || [] });
    } else if (data.sources) {
      setSourcesData({ run_id: targetRunId,
        updated_at: data.updated_at || new Date().toISOString(),
        sources: data.sources || [] });
    }
    if (isFullRun && Array.isArray(data.activity) && data.activity.length > 0) {
      setActivityFeed(data.activity);
    }
    if (isFullRun && Array.isArray(data.messages) && data.messages.length > 0) {
      setMessages(data.messages);
    }
    if (isFullRun && data.goal) { setReportGoal(data.goal); }
    if (isFullRun && data.plan) { setPlan(data.plan); setPlanGoal(data.planGoal || ""); }
  }
  \<close>
\<close>

definition restored_sources :: "string \<Rightarrow> string \<Rightarrow> saved_sources \<Rightarrow> sources_data" where
  "restored_sources targetRunId nowIso s =
     \<lparr>src_run_id = Some targetRunId,
      src_updated_at = Some (if sv_updated_at s = '''' then nowIso else sv_updated_at s),
      src_sources = (case sv_sources s of Some xs \<Rightarrow> xs | None \<Rightarrow> [])\<rparr>"

definition loadFullRun ::
  "string \<Rightarrow> string \<Rightarrow> ui_state \<Rightarrow> run_file option \<Rightarrow> upload_answer \<Rightarrow> ui_state" where
  "loadFullRun nowIso stamp st file res =
     (case file of
        None \<Rightarrow> st
      | Some data \<Rightarrow>
          (case res of
             UploadThrown \<Rightarrow> st
           | UploadData ok \<Rightarrow>
               (case data of
                  FullRun f \<Rightarrow>
                    let targetRunId =
                          (if fr_run_id f \<noteq> '''' then fr_run_id f
                           else case fr_sources f of
                                  None \<Rightarrow> ''imported-'' @ stamp
                                | Some s \<Rightarrow>
                                    if sv_run_id s \<noteq> '''' then sv_run_id s
                                    else ''imported-'' @ stamp);
                        st1 = (case fr_sources f of
                                 None \<Rightarrow> st
                               | Some s \<Rightarrow>
                                   st\<lparr>sourcesData := restored_sources targetRunId nowIso s\<rparr>);
                        st2 = (case fr_activity f of
                                 None \<Rightarrow> st1
                               | Some items \<Rightarrow>
                                   if length items > 0 then st1\<lparr>activityFeed := items\<rparr>
                                   else st1);
                        st3 = (case fr_messages f of
                                 None \<Rightarrow> st2
                               | Some ms \<Rightarrow>
                                   if length ms > 0 then st2\<lparr>messages := ms\<rparr> else st2);
                        st4 = (if fr_goal f \<noteq> '''' then st3\<lparr>reportGoal := fr_goal f\<rparr>
                               else st3)
                    in (case fr_plan f of
                          None \<Rightarrow> st4
                        | Some p \<Rightarrow> st4\<lparr>plan := Some p, planGoal := Some (fr_planGoal f)\<rparr>)
                | SourcesOnly s \<Rightarrow>
                    if ok
                    then (case sv_sources s of
                            None \<Rightarrow> st
                          | Some xs \<Rightarrow>
                              st\<lparr>sourcesData :=
                                   restored_sources
                                     (if sv_run_id s \<noteq> '''' then sv_run_id s
                                      else ''imported-'' @ stamp)
                                     nowIso s\<rparr>)
                    else st)))"

section \<open>App.js: the page over time\<close>

text \<open>
  The steps that write the activity cursor and feed: an activity poll is answered; a
  status poll is answered (and with it, when it started one, the cursor
  synchronisation); the user starts a new run; the user loads a saved run. Each poll is
  one step: the request is built from the state its answer is then applied to.
\<close>

datatype page_event =
    ActivityPolled "activity_data option"
  | StatusPolled "status_data option" "activity_data option"
  | NewRunClicked runs_answer
  | RunLoaded string "run_file option" upload_answer

fun page_do :: "renderers \<Rightarrow> string \<Rightarrow> page_event \<Rightarrow> ui_state \<Rightarrow> ui_state" where
  "page_do h nowIso (ActivityPolled res) st = fetchActivity_response h nowIso st res"
| "page_do h nowIso (StatusPolled res sync) st =
     (case fetchStatus_sync (runId st) res of
        None \<Rightarrow> fetchStatus_response (runId st) st res
      | Some req \<Rightarrow>
          syncActivityCursorToLatest_response (fetchStatus_response (runId st) st res) sync)"
| "page_do h nowIso (NewRunClicked runs) st = handleNewRun st runs"
| "page_do h nowIso (RunLoaded stamp file res) st = loadFullRun nowIso stamp st file res"

fun page_run :: "renderers \<Rightarrow> string \<Rightarrow> page_event list \<Rightarrow> ui_state \<Rightarrow> ui_state" where
  "page_run h nowIso [] st = st"
| "page_run h nowIso (e # es) st = page_run h nowIso es (page_do h nowIso e st)"

text \<open>
  The activity lines a step installs from a file: those of a full save that is loaded,
  none otherwise.
\<close>

fun loaded_activity :: "page_event \<Rightarrow> feed_item list" where
  "loaded_activity (RunLoaded stamp (Some (FullRun f)) res) =
     (case fr_activity f of None \<Rightarrow> [] | Some items \<Rightarrow> items)"
| "loaded_activity e = []"

section \<open>App.js: one tick of the polling interval\<close>

text \<open>
  Every three seconds the page polls the backend:
  \<^verbatim>\<open>
  const intervalId = setInterval(() => {
    checkHealth(); fetchStatus(); fetchLatestAnswer(); fetchScreenshot();
    fetchActivity(); fetchSources(); pollPendingResults(); fetchQueueItems();
    fetchPowerSettings();
  }, 3000);
  \<close>
  The calls follow one another without waiting: each sends its request at once, built
  from the \<open>runId\<close> and the \<open>activitySinceId\<close> the page shows at the tick, and handles
  its answer when that arrives. \<open>tick\<close> gives what the three polls modelled here send
  and remember.
\<close>

record tick_requests =
  tk_shown :: "string option"
  tk_activity :: activity_request
  tk_sources :: "string option"

definition tick :: "ui_state \<Rightarrow> tick_requests" where
  "tick st =
     \<lparr>tk_shown = runId st, tk_activity = fetchActivity_request st,
      tk_sources = fetchSources_request st\<rparr>"

text \<open>
  The answers to the requests of one tick, in the order in which they arrive:
  \<open>SyncAnswered\<close> is the answer to the cursor synchronisation that the status answer
  has started.
\<close>

datatype tick_answer =
    StatusAnswered "status_data option"
  | SyncAnswered "activity_data option"
  | ActivityAnswered "activity_data option"
  | SourcesAnswered "sources_answer option"

fun answer_do :: "renderers \<Rightarrow> string \<Rightarrow> tick_requests \<Rightarrow> tick_answer \<Rightarrow> ui_state \<Rightarrow> ui_state" where
  "answer_do h nowIso req (StatusAnswered res) st = fetchStatus_response (tk_shown req) st res"
| "answer_do h nowIso req (SyncAnswered res) st = syncActivityCursorToLatest_response st res"
| "answer_do h nowIso req (ActivityAnswered res) st = fetchActivity_response h nowIso st res"
| "answer_do h nowIso req (SourcesAnswered res) st = fetchSources_response (tk_sources req) st res"

fun answers_run ::
  "renderers \<Rightarrow> string \<Rightarrow> tick_requests \<Rightarrow> tick_answer list \<Rightarrow> ui_state \<Rightarrow> ui_state" where
  "answers_run h nowIso req [] st = st"
| "answers_run h nowIso req (a # as) st = answers_run h nowIso req as (answer_do h nowIso req a st)"


section \<open>The backend, from the specification\<close>

text \<open>
  The page talks to a backend (\<open>api.py\<close>, \<open>sources/trace_sink.py\<close>, the planner and the
  verifier) that is not among the sources. What the claims say about it is settled
  against the definitions of this section, which follow the words of the specification.
\<close>

subsection \<open>Trace Sink\<close>

text \<open>
  Modelled from the spec: the Trace Sink (\<open>sources/trace_sink.py\<close> is missing). One
  append-only log per run; the runs that have a log on disk, in the order of their
  first event.
\<close>

record trace_store =
  ts_runs :: "string list"
  ts_log :: "string \<Rightarrow> activity_event list"

definition empty_store :: trace_store where
  "empty_store = \<lparr>ts_runs = [], ts_log = (\<lambda>r. [])\<rparr>"

text \<open>
  Modelled from the spec: \<open>append(run_id, event_kind, fields) -> event_id\<close>, missing
  from the sources. ``Append assigns the next id for that run (monotonic, starts at 1)
  and durably persists the event before returning.''
\<close>

definition next_event_id :: "activity_event list \<Rightarrow> nat" where
  "next_event_id entries = (if entries = [] then 1 else ev_id (last entries) + 1)"

definition trace_append ::
  "trace_store \<Rightarrow> string \<Rightarrow> string \<Rightarrow> string \<Rightarrow> json \<Rightarrow> nat \<times> trace_store" where
  "trace_append s run_id ts event_kind payload =
     (let entries = ts_log s run_id;
          i = next_event_id entries;
          ev = \<lparr>ev_id = i, ev_ts = ts, ev_event = event_kind, ev_fields = payload\<rparr>
      in (i, s\<lparr>ts_runs := (if run_id \<in> set (ts_runs s) then ts_runs s else ts_runs s @ [run_id]),
               ts_log := (ts_log s)(run_id := entries @ [ev])\<rparr>))"



subsection \<open>A run being polled\<close>




text \<open>
  The ids of a log are in order when its \<open>i\<close>-th event (from 0) has id \<open>i + 1\<close>. While
  the page shows run \<open>r\<close>: every log is in order, the cursor of the page points into the
  log of \<open>r\<close>, and the page has been sent the events up to the cursor.
\<close>

definition wf_ids :: "activity_event list \<Rightarrow> bool" where
  "wf_ids l = (\<forall>i < length l. ev_id (l ! i) = Suc i)"



subsection \<open>Task Queue and Run Coordinator\<close>

text \<open>
  Modelled from the spec: the data model of the backend (\<open>api.py\<close> and the planner are
  missing). A Task is \<open>{uid, query, config, status, created_at}\<close>; a PlanStep is
  \<open>{idx, id, title, agent_kind, status, result}\<close>, its \<open>idx\<close> being its place in the plan; a
  RunContext is \<open>{run_id, output_dir, trace_config, paused, status_text, plan,
  current_step_idx}\<close>; an Amendment is \<open>{text, ts}\<close>. A uid is modelled by its number in
  the order of issue.
\<close>

datatype task_status = Queued | Running | Done | Failed

record task =
  t_uid :: nat
  t_query :: string
  t_config :: json
  t_status :: task_status
  t_created_at :: string

datatype step_status = Pending | StepRunning | Completed | StepFailed

record plan_step =
  ps_id :: string
  ps_title :: string
  ps_agent_kind :: string
  ps_status :: step_status
  ps_result :: "string option"

record run_context =
  rc_run_id :: string
  rc_output_dir :: string
  rc_trace_config :: json
  rc_paused :: bool
  rc_status_text :: string
  rc_plan :: "plan_step list"
  rc_current_step_idx :: nat

record amendment =
  am_text :: string
  am_ts :: string

text \<open>
  Modelled from the spec: the state of the backend. The tasks in submission order, the
  number of uids issued, the one RunContext if a run is active, the amendment mailbox,
  and the traces on disk.
\<close>

record backend =
  be_tasks :: "task list"
  be_issued :: nat
  be_run :: "run_context option"
  be_mailbox :: "amendment list"
  be_store :: trace_store

definition empty_backend :: backend where
  "empty_backend =
     \<lparr>be_tasks = [], be_issued = 0, be_run = None, be_mailbox = [], be_store = empty_store\<rparr>"

datatype backend_error = InvalidState | NoActiveRun

text \<open>
  Modelled from the spec: \<open>submit(query, config) -> uid\<close>, missing from the sources.
  ``Always succeeds, never blocks on execution''; ``submission assigns a globally-unique
  uid and timestamps the Task''. The Task is appended with status \<open>queued\<close>; nothing is
  run.
\<close>

definition submit :: "string \<Rightarrow> json \<Rightarrow> string \<Rightarrow> backend \<Rightarrow> nat \<times> backend" where
  "submit q config now b =
     (let uid = be_issued b
      in (uid,
          b\<lparr>be_tasks := be_tasks b @ [\<lparr>t_uid = uid, t_query = q, t_config = config,
                                        t_status = Queued, t_created_at = now\<rparr>],
            be_issued := Suc uid\<rparr>))"

text \<open>
  Modelled from the spec: \<open>update(uid, patch) -> ok|error\<close> (``fails with
  \<open>InvalidState\<close> if Task is not \<open>queued\<close>'') and \<open>delete(uid) -> ok|error\<close> (``same
  constraint''), missing from the sources; ``rejected synchronously, no side effect''.
  A uid that names no Task names none that is queued. The patch replaces the query, the
  config, or both.
\<close>

record task_patch =
  tp_query :: "string option"
  tp_config :: "json option"

definition apply_patch :: "task_patch \<Rightarrow> task \<Rightarrow> task" where
  "apply_patch p t =
     t\<lparr>t_query := (case tp_query p of None \<Rightarrow> t_query t | Some q \<Rightarrow> q),
       t_config := (case tp_config p of None \<Rightarrow> t_config t | Some c \<Rightarrow> c)\<rparr>"

definition is_queued :: "backend \<Rightarrow> nat \<Rightarrow> bool" where
  "is_queued b uid =
     (case find (\<lambda>t. t_uid t = uid) (be_tasks b) of
        None \<Rightarrow> False
      | Some t \<Rightarrow> t_status t = Queued)"

definition update_task :: "nat \<Rightarrow> task_patch \<Rightarrow> backend \<Rightarrow> (backend_error + unit) \<times> backend" where
  "update_task uid p b =
     (if is_queued b uid
      then (Inr (), b\<lparr>be_tasks := map (\<lambda>t. if t_uid t = uid then apply_patch p t else t)
                                      (be_tasks b)\<rparr>)
      else (Inl InvalidState, b))"

definition delete_task :: "nat \<Rightarrow> backend \<Rightarrow> (backend_error + unit) \<times> backend" where
  "delete_task uid b =
     (if is_queued b uid
      then (Inr (), b\<lparr>be_tasks := filter (\<lambda>t. t_uid t \<noteq> uid) (be_tasks b)\<rparr>)
      else (Inl InvalidState, b))"

text \<open>
  Modelled from the spec: \<open>dequeue_next() -> Task|empty\<close>, missing from the sources.
  ``FIFO by submission order''; ``the dequeue operation must atomically transition
  status to \<open>running\<close>''. The coordinator dequeues only while no run is active, and
  builds the RunContext of the Task; the planner (an external collaborator) supplies the
  run id, the output directory and the plan.
\<close>

definition dequeue_next :: "backend \<Rightarrow> task option \<times> backend" where
  "dequeue_next b =
     (case find (\<lambda>t. t_status t = Queued) (be_tasks b) of
        None \<Rightarrow> (None, b)
      | Some t \<Rightarrow>
          (Some (t\<lparr>t_status := Running\<rparr>),
           b\<lparr>be_tasks := map (\<lambda>x. if t_uid x = t_uid t then x\<lparr>t_status := Running\<rparr> else x)
                              (be_tasks b)\<rparr>))"

definition start_run :: "string \<Rightarrow> string \<Rightarrow> plan_step list \<Rightarrow> backend \<Rightarrow> backend" where
  "start_run run_id output_dir steps b =
     (case be_run b of
        Some rc \<Rightarrow> b
      | None \<Rightarrow>
          (case dequeue_next b of
             (None, b') \<Rightarrow> b'
           | (Some t, b') \<Rightarrow>
               b'\<lparr>be_run := Some \<lparr>rc_run_id = run_id, rc_output_dir = output_dir,
                                   rc_trace_config = t_config t, rc_paused = False,
                                   rc_status_text = '''', rc_plan = steps,
                                   rc_current_step_idx = 0\<rparr>\<rparr>))"

text \<open>
  Modelled from the spec: the end of a run, missing from the sources. The running Task
  goes to \<open>done\<close> or \<open>failed\<close> and the RunContext is destroyed.
\<close>

definition finish_run :: "bool \<Rightarrow> backend \<Rightarrow> backend" where
  "finish_run ok b =
     b\<lparr>be_tasks := map (\<lambda>t. if t_status t = Running
                             then t\<lparr>t_status := (if ok then Done else Failed)\<rparr> else t)
                       (be_tasks b),
       be_run := None, be_mailbox := []\<rparr>"

text \<open>
  Modelled from the spec: \<open>amend(text) -> ok|error(NoActiveRun)\<close>, missing from the
  sources. ``Amendment submitted while no run is active returns \<open>NoActiveRun\<close> and does
  not mutate any plan''; otherwise the amendment goes to the mailbox, which the
  coordinator consumes at step boundaries only.
\<close>

definition amend :: "string \<Rightarrow> string \<Rightarrow> backend \<Rightarrow> (backend_error + unit) \<times> backend" where
  "amend text' now b =
     (case be_run b of
        None \<Rightarrow> (Inl NoActiveRun, b)
      | Some rc \<Rightarrow> (Inr (), b\<lparr>be_mailbox := be_mailbox b @ [\<lparr>am_text = text', am_ts = now\<rparr>]\<rparr>))"

text \<open>
  Modelled from the spec: the step boundary, missing from the sources. ``An amendment
  is spliced into the plan after the current step and before any steps not yet started,
  preserving the relative order of the remainder; it does not rewind or re-run completed
  steps''; it is ``applied by insertion into the live plan, then discarded''. The step
  an amendment becomes carries its text; which agent takes it is the planner's choice.
\<close>

definition amendment_step :: "string \<Rightarrow> amendment \<Rightarrow> plan_step" where
  "amendment_step agent_kind a =
     \<lparr>ps_id = am_ts a, ps_title = am_text a, ps_agent_kind = agent_kind,
      ps_status = Pending, ps_result = None\<rparr>"

definition step_boundary :: "string \<Rightarrow> backend \<Rightarrow> backend" where
  "step_boundary agent_kind b =
     (case be_run b of
        None \<Rightarrow> b
      | Some rc \<Rightarrow>
          b\<lparr>be_run := Some (rc\<lparr>rc_plan :=
                               take (Suc (rc_current_step_idx rc)) (rc_plan rc)
                               @ map (amendment_step agent_kind) (be_mailbox b)
                               @ drop (Suc (rc_current_step_idx rc)) (rc_plan rc)\<rparr>),
            be_mailbox := []\<rparr>)"

text \<open>
  Modelled from the spec: \<open>new_run()\<close>, missing from the sources. It ``resets transient
  UI-facing state and discards any RunContext''; it ``invalidates the current RunContext
  and trace cursor but never deletes already-written trace files''.
\<close>

definition new_run :: "backend \<Rightarrow> backend" where
  "new_run b = b\<lparr>be_run := None, be_mailbox := []\<rparr>"

text \<open>
  Modelled from the spec: what the endpoints missing from the sources answer. \<open>/runs\<close>
  lists the runs that have a trace on disk; reading the trace file of a run gives its
  events.
\<close>

definition runs_endpoint :: "backend \<Rightarrow> runs_answer" where
  "runs_endpoint b = Runs (map J_str (ts_runs (be_store b)))"

definition trace_file :: "backend \<Rightarrow> string \<Rightarrow> activity_event list" where
  "trace_file b run_id = ts_log (be_store b) run_id"

text \<open>
  Modelled from the spec: the operations of the backend as they can follow one another,
  with the uids that \<open>submit\<close> has handed out so far, in order of issue.
\<close>

datatype backend_op =
    OpSubmit string json string
  | OpUpdate nat task_patch
  | OpDelete nat
  | OpStartRun string string "plan_step list"
  | OpFinishRun bool
  | OpAmend string string
  | OpStepBoundary string
  | OpNewRun
  | OpTrace string string string json

fun backend_do :: "backend_op \<Rightarrow> backend \<times> nat list \<Rightarrow> backend \<times> nat list" where
  "backend_do (OpSubmit q config now) (b, issued) =
     (snd (submit q config now b), issued @ [fst (submit q config now b)])"
| "backend_do (OpUpdate uid p) (b, issued) = (snd (update_task uid p b), issued)"
| "backend_do (OpDelete uid) (b, issued) = (snd (delete_task uid b), issued)"
| "backend_do (OpStartRun run_id output_dir steps) (b, issued) =
     (start_run run_id output_dir steps b, issued)"
| "backend_do (OpFinishRun ok) (b, issued) = (finish_run ok b, issued)"
| "backend_do (OpAmend text' now) (b, issued) = (snd (amend text' now b), issued)"
| "backend_do (OpStepBoundary agent_kind) (b, issued) = (step_boundary agent_kind b, issued)"
| "backend_do OpNewRun (b, issued) = (new_run b, issued)"
| "backend_do (OpTrace run_id ts event_kind payload) (b, issued) =
     (b\<lparr>be_store := snd (trace_append (be_store b) run_id ts event_kind payload)\<rparr>, issued)"

fun backend_run :: "backend_op list \<Rightarrow> backend \<times> nat list \<Rightarrow> backend \<times> nat list" where
  "backend_run [] c = c"
| "backend_run (x # xs) c = backend_run xs (backend_do x c)"

text \<open>
  A trace store keeps the traces of an earlier one: every run listed then is listed now,
  and every log starts with what it held then.
\<close>

definition keeps_traces :: "trace_store \<Rightarrow> trace_store \<Rightarrow> bool" where
  "keeps_traces old new \<longleftrightarrow>
     set (ts_runs old) \<subseteq> set (ts_runs new) \<and>
     (\<forall>r. take (length (ts_log old r)) (ts_log new r) = ts_log old r)"


subsection \<open>Verifier\<close>

text \<open>
  Modelled from the spec: the Verifier's bounded improving-retry loop (its code is
  missing; the README's table row ``Improved Verifier: 6 retries with progress tracking.
  Only retries if actually improving'' is all the sources say). An attempt is the output
  of one execution of the step, the quality the Verifier's heuristic gives it, and
  whether \<open>verify\<close> accepts it; the executions themselves are an external collaborator,
  \<open>run k\<close> being what attempt number \<open>k\<close> produces.
\<close>

record attempt =
  at_output :: string
  at_score :: nat
  at_accept :: bool

datatype retry_verdict = Accepted | Exhausted | FailFast

record retry_result =
  rr_verdict :: retry_verdict
  rr_kept :: attempt
  rr_attempts :: nat

text \<open>``At most 6 attempts per step/run''; ``two consecutive attempts [with] no improvement''.\<close>

definition max_attempts :: nat where
  "max_attempts = 6"

definition stall_limit :: nat where
  "stall_limit = 2"

text \<open>
  Modelled from the spec: ``After each rejected attempt, the Verifier compares the new
  output against the best-so-far [...]; if two consecutive attempts show no improvement,
  retries stop early (fail-fast) even if the budget remains. [...] On exhausting retries
  or triggering fail-fast, the step is marked \<open>failed\<close> with the best-scoring attempt kept
  as the result.'' \<open>retry_loop run budget k best stalls\<close>: \<open>k\<close> attempts are made and
  rejected, \<open>best\<close> is the best of them, the last \<open>stalls\<close> of them did not improve on the
  best before them, and \<open>budget\<close> attempts remain.
\<close>

fun retry_loop :: "(nat \<Rightarrow> attempt) \<Rightarrow> nat \<Rightarrow> nat \<Rightarrow> attempt \<Rightarrow> nat \<Rightarrow> retry_result" where
  "retry_loop run 0 k best stalls =
     \<lparr>rr_verdict = Exhausted, rr_kept = best, rr_attempts = k\<rparr>"
| "retry_loop run (Suc budget) k best stalls =
     (let a = run (Suc k)
      in if at_accept a
         then \<lparr>rr_verdict = Accepted, rr_kept = a, rr_attempts = Suc k\<rparr>
         else
           let improved = at_score best < at_score a;
               best' = (if improved then a else best);
               stalls' = (if improved then 0 else Suc stalls)
           in if stall_limit \<le> stalls'
              then \<lparr>rr_verdict = FailFast, rr_kept = best', rr_attempts = Suc k\<rparr>
              else retry_loop run budget (Suc k) best' stalls')"

definition verify_with_retries :: "(nat \<Rightarrow> attempt) \<Rightarrow> retry_result" where
  "verify_with_retries run =
     (let a = run 1
      in if at_accept a
         then \<lparr>rr_verdict = Accepted, rr_kept = a, rr_attempts = 1\<rparr>
         else retry_loop run (max_attempts - 1) 1 a 0)"

text \<open>Attempt \<open>k\<close> shows no improvement: an earlier attempt scored at least as well.\<close>

definition no_improvement :: "(nat \<Rightarrow> attempt) \<Rightarrow> nat \<Rightarrow> bool" where
  "no_improvement run k = list_ex (\<lambda>j. at_score (run k) \<le> at_score (run j)) [1..<k]"

text \<open>
  What holds whenever the loop is entered (\<open>loop_inv\<close>), and what holds of its result
  (\<open>retry_ok\<close>).
\<close>

definition loop_inv :: "(nat \<Rightarrow> attempt) \<Rightarrow> nat \<Rightarrow> attempt \<Rightarrow> nat \<Rightarrow> bool" where
  "loop_inv run k best stalls \<longleftrightarrow>
     1 \<le> k \<and> (\<exists>j. 1 \<le> j \<and> j \<le> k \<and> best = run j) \<and>
     (\<forall>j. 1 \<le> j \<and> j \<le> k \<longrightarrow> at_score (run j) \<le> at_score best \<and> \<not> at_accept (run j)) \<and>
     stalls < 2 \<and>
     (stalls = 1 \<longrightarrow> 2 \<le> k \<and> no_improvement run k) \<and>
     (stalls = 0 \<longrightarrow> \<not> (2 \<le> k \<and> no_improvement run k)) \<and>
     (\<forall>j. 2 \<le> j \<and> Suc j \<le> k \<longrightarrow> \<not> (no_improvement run j \<and> no_improvement run (Suc j)))"

definition retry_ok :: "(nat \<Rightarrow> attempt) \<Rightarrow> retry_result \<Rightarrow> bool" where
  "retry_ok run r \<longleftrightarrow>
     (let n = rr_attempts r
      in 1 \<le> n \<and> n \<le> 6 \<and>
         (\<exists>j. 1 \<le> j \<and> j \<le> n \<and> rr_kept r = run j) \<and>
         (rr_verdict r \<noteq> Accepted \<longrightarrow>
            (\<forall>j. 1 \<le> j \<and> j \<le> n \<longrightarrow>
               at_score (run j) \<le> at_score (rr_kept r) \<and> \<not> at_accept (run j))) \<and>
         (rr_verdict r = Accepted \<longrightarrow> rr_kept r = run n \<and> at_accept (run n)) \<and>
         (\<forall>j. 2 \<le> j \<and> Suc j \<le> n \<and> no_improvement run j \<and> no_improvement run (Suc j)
               \<longrightarrow> n = Suc j) \<and>
         (rr_verdict r = Exhausted \<longrightarrow> n = 6) \<and>
         (rr_verdict r = FailFast \<longrightarrow>
            3 \<le> n \<and> no_improvement run (n - 1) \<and> no_improvement run n))"


section \<open>Sample values\<close>

text \<open>Concrete renderers, events and answers on which the theorems below are run.\<close>

definition sample_renderers :: renderers where
  "sample_renderers =
     \<lparr>formatActivityEvent = (\<lambda>e. Some (ev_event e)), activityKind = ev_event,
      activityBadge = ev_event\<rparr>"

definition sample_event :: "nat \<Rightarrow> activity_event" where
  "sample_event i = \<lparr>ev_id = i, ev_ts = ''t'', ev_event = ''print'', ev_fields = J_null\<rparr>"

definition sample_item :: feed_item where
  "sample_item = toFeedItem sample_renderers ''now'' (sample_event 0)"

definition sample_status :: status_data where
  "sample_status =
     \<lparr>sd_is_generating = True, sd_queue_length = 0, sd_paused = False,
      sd_current_status = ''Working'', sd_agent_type = '''', sd_agent_name = '''',
      sd_run_id = ''run2'', sd_output_dir = '''', sd_plan_goal = '''',
      sd_plan_current_step = None, sd_plan = None, sd_ui_session_id = ''''\<rparr>"


definition sample_steps :: "plan_step list" where
  "sample_steps =
     [\<lparr>ps_id = ''s1'', ps_title = ''search cafes'', ps_agent_kind = ''web'',
       ps_status = Pending, ps_result = None\<rparr>,
      \<lparr>ps_id = ''s2'', ps_title = ''save list'', ps_agent_kind = ''file'',
       ps_status = Pending, ps_result = None\<rparr>]"

definition sample_ops :: "backend_op list" where
  "sample_ops =
     [OpSubmit ''find cafes'' J_null ''t0'', OpSubmit ''write report'' J_null ''t1'',
      OpStartRun ''run1'' ''runs/run1'' sample_steps,
      OpTrace ''run1'' ''t2'' ''plan_step'' J_null]"

definition sample_backend :: backend where
  "sample_backend = fst (backend_run sample_ops (empty_backend, []))"

definition sample_attempts :: "nat \<Rightarrow> attempt" where
  "sample_attempts k =
     \<lparr>at_output = ''draft'', at_score = [3, 5, 5, 4, 9, 9] ! (k - 1), at_accept = False\<rparr>"


text \<open>A full save that holds 201 activity lines and nothing else.\<close>

definition sample_save :: full_run where
  "sample_save =
     \<lparr>fr_run_id = ''run1'', fr_sources = None,
      fr_activity = Some (replicate 201 sample_item), fr_messages = None,
      fr_goal = '''', fr_plan = None, fr_planGoal = ''''\<rparr>"


text \<open>
  A page that shows \<open>run1\<close> with its cursor at 7 and one line in the feed, and the answers
  to the polls of one tick, in the order in which they arrive: the status, which reports
  \<open>run2\<close>; the synchronisation of the cursor, for \<open>run2\<close>; and the activity and the
  sources that were asked for \<open>run1\<close>.
\<close>

definition sample_page :: ui_state where
  "sample_page =
     initial_ui\<lparr>runId := Some ''run1'', activitySinceId := 7, activityFeed := [sample_item]\<rparr>"

definition sample_answers :: "tick_answer list" where
  "sample_answers =
     [StatusAnswered (Some sample_status),
      SyncAnswered (Some \<lparr>ad_events = Some [], ad_next_since_id = Some 0, ad_latest_id = Some 4\<rparr>),
      ActivityAnswered
        (Some \<lparr>ad_events = Some [sample_event 8], ad_next_since_id = Some 8,
               ad_latest_id = Some 8\<rparr>),
      SourcesAnswered
        (Some \<lparr>sa_run_id = ''run1'', sa_updated_at = ''t'',
               sa_sources = Some [J_str ''a source of run1'']\<rparr>)]"

section \<open>Properties\<close>


subsection \<open>Rounding to a double\<close>

text \<open>The two searches for the spacing, unfolded on a numeral.\<close>

lemma ulp_down_numeral:
  "ulp_down (numeral k) a q = (if a < 2 ^ 52 * q then ulp_down (pred_numeral k) a (q / 2) else q)"
  by (simp add: numeral_eq_Suc)

lemma ulp_up_numeral:
  "ulp_up (numeral k) a q = (if 2 ^ 53 * q \<le> a then ulp_up (pred_numeral k) a (2 * q) else q)"
  by (simp add: numeral_eq_Suc)

lemma MIN_VALUE_pos: "0 < MIN_VALUE"
  by (simp add: MIN_VALUE_def)

lemma one_MIN_VALUE: "1 = 2 ^ 1074 * MIN_VALUE"
  by (simp add: MIN_VALUE_def)

lemma ulp_down_spec:
  "a < 2 ^ 53 * (2 ^ j * MIN_VALUE) \<Longrightarrow>
   \<exists>k \<le> j. ulp_down j a (2 ^ j * MIN_VALUE) = 2 ^ k * MIN_VALUE \<and>
     a < 2 ^ 53 * (2 ^ k * MIN_VALUE) \<and> (k = 0 \<or> 2 ^ 52 * (2 ^ k * MIN_VALUE) \<le> a)"
proof (induction j)
  case 0
  then show ?case by simp
next
  case (Suc j)
  let ?q = "2 ^ Suc j * MIN_VALUE"
  show ?case
  proof (cases "a < 2 ^ 52 * ?q")
    case True
    have step: "ulp_down (Suc j) a ?q = ulp_down j a (2 ^ j * MIN_VALUE)"
      using True by simp
    have "a < 2 ^ 53 * (2 ^ j * MIN_VALUE)" using True by simp
    from Suc.IH [OF this] obtain k where k: "k \<le> j"
      "ulp_down j a (2 ^ j * MIN_VALUE) = 2 ^ k * MIN_VALUE"
      "a < 2 ^ 53 * (2 ^ k * MIN_VALUE)" "k = 0 \<or> 2 ^ 52 * (2 ^ k * MIN_VALUE) \<le> a"
      by blast
    then show ?thesis using step by (intro exI [of _ k]) simp
  next
    case False
    have "ulp_down (Suc j) a ?q = ?q" using False by simp
    then show ?thesis using False Suc.prems by (intro exI [of _ "Suc j"]) simp
  qed
qed

lemma ulp_up_spec:
  "2 ^ 52 * (2 ^ j * MIN_VALUE) \<le> a \<Longrightarrow>
   \<exists>k. j \<le> k \<and> k \<le> j + n \<and> ulp_up n a (2 ^ j * MIN_VALUE) = 2 ^ k * MIN_VALUE \<and>
     2 ^ 52 * (2 ^ k * MIN_VALUE) \<le> a \<and> (k = j + n \<or> a < 2 ^ 53 * (2 ^ k * MIN_VALUE))"
proof (induction n arbitrary: j)
  case 0
  then show ?case by (intro exI [of _ j]) simp
next
  case (Suc n)
  let ?q = "2 ^ j * MIN_VALUE"
  show ?case
  proof (cases "2 ^ 53 * ?q \<le> a")
    case True
    have step: "ulp_up (Suc n) a ?q = ulp_up n a (2 ^ Suc j * MIN_VALUE)"
      using True by (simp add: mult.assoc)
    have "2 ^ 52 * (2 ^ Suc j * MIN_VALUE) \<le> a" using True by simp
    from Suc.IH [OF this] obtain k where k: "Suc j \<le> k" "k \<le> Suc j + n"
      "ulp_up n a (2 ^ Suc j * MIN_VALUE) = 2 ^ k * MIN_VALUE"
      "2 ^ 52 * (2 ^ k * MIN_VALUE) \<le> a" "k = Suc j + n \<or> a < 2 ^ 53 * (2 ^ k * MIN_VALUE)"
      by blast
    then show ?thesis using step by (intro exI [of _ k]) auto
  next
    case False
    have "ulp_up (Suc n) a ?q = ?q" using False by simp
    then show ?thesis using False Suc.prems by (intro exI [of _ j]) simp
  qed
qed

lemma ulp64_spec:
  assumes "0 \<le> a"
  shows "\<exists>k \<le> 2045. ulp64 a = 2 ^ k * MIN_VALUE \<and>
           (k = 2045 \<or> a < 2 ^ 53 * (2 ^ k * MIN_VALUE)) \<and>
           (k = 0 \<or> 2 ^ 52 * (2 ^ k * MIN_VALUE) \<le> a)"
proof (cases "a < 2 ^ 52")
  case True
  have "a < 2 ^ 53 * (2 ^ 1074 * MIN_VALUE)" using True one_MIN_VALUE [symmetric] by simp
  from ulp_down_spec [OF this] obtain k where "k \<le> 1074"
    "ulp_down 1074 a (2 ^ 1074 * MIN_VALUE) = 2 ^ k * MIN_VALUE"
    "a < 2 ^ 53 * (2 ^ k * MIN_VALUE)" "k = 0 \<or> 2 ^ 52 * (2 ^ k * MIN_VALUE) \<le> a"
    by blast
  then show ?thesis
    using True one_MIN_VALUE [symmetric] by (intro exI [of _ k]) (simp add: ulp64_def)
next
  case False
  have "2 ^ 52 * (2 ^ 1074 * MIN_VALUE) \<le> a" using False one_MIN_VALUE [symmetric] by simp
  from ulp_up_spec [OF this, of 971] obtain k where "1074 \<le> k" "k \<le> 1074 + 971"
    "ulp_up 971 a (2 ^ 1074 * MIN_VALUE) = 2 ^ k * MIN_VALUE"
    "2 ^ 52 * (2 ^ k * MIN_VALUE) \<le> a" "k = 1074 + 971 \<or> a < 2 ^ 53 * (2 ^ k * MIN_VALUE)"
    by blast
  then show ?thesis
    using False one_MIN_VALUE [symmetric] by (intro exI [of _ k]) (auto simp: ulp64_def)
qed

lemma ulp64_pos: "0 \<le> a \<Longrightarrow> 0 < ulp64 a"
  using ulp64_spec [of a] MIN_VALUE_pos by auto

lemma ulp64_le: "0 \<le> a \<Longrightarrow> ulp64 a \<le> a / 2 ^ 52 + MIN_VALUE"
proof -
  assume a: "0 \<le> a"
  from ulp64_spec [OF a] obtain k where k: "ulp64 a = 2 ^ k * MIN_VALUE"
    "k = 0 \<or> 2 ^ 52 * (2 ^ k * MIN_VALUE) \<le> a" by blast
  show ?thesis
  proof (cases "k = 0")
    case True
    then show ?thesis using k a by simp
  next
    case False
    then have "2 ^ 52 * ulp64 a \<le> a" using k by simp
    then have "ulp64 a \<le> a / 2 ^ 52" by (simp add: field_simps)
    then show ?thesis using MIN_VALUE_pos by simp
  qed
qed

lemma rne_err: "\<bar>of_int (rne y) - y\<bar> \<le> 1 / 2"
proof -
  have "of_int \<lfloor>y\<rfloor> \<le> y" "y < of_int \<lfloor>y\<rfloor> + 1" by linarith+
  then show ?thesis by (auto simp: rne_def Let_def)
qed

lemma rne_of_int [simp]: "rne (of_int k) = k"
  by (simp add: rne_def)

lemma rne_mono: "x \<le> y \<Longrightarrow> rne x \<le> rne y"
proof -
  assume xy: "x \<le> y"
  then have f: "\<lfloor>x\<rfloor> \<le> \<lfloor>y\<rfloor>" by (rule floor_mono)
  show ?thesis
  proof (cases "\<lfloor>x\<rfloor> = \<lfloor>y\<rfloor>")
    case True
    then show ?thesis using xy by (auto simp: rne_def Let_def)
  next
    case False
    then have "\<lfloor>x\<rfloor> + 1 \<le> \<lfloor>y\<rfloor>" using f by simp
    moreover have "rne x \<le> \<lfloor>x\<rfloor> + 1" by (auto simp: rne_def Let_def)
    moreover have "\<lfloor>y\<rfloor> \<le> rne y" by (auto simp: rne_def Let_def)
    ultimately show ?thesis by simp
  qed
qed

lemma nearest64_err: "\<bar>nearest64 x - x\<bar> \<le> ulp64 \<bar>x\<bar> / 2"
proof -
  define q where "q = ulp64 \<bar>x\<bar>"
  have q: "0 < q" unfolding q_def by (rule ulp64_pos) simp
  have "\<bar>of_int (rne (x / q)) - x / q\<bar> \<le> 1 / 2" by (rule rne_err)
  then have "\<bar>of_int (rne (x / q)) - x / q\<bar> * q \<le> 1 / 2 * q"
    using q by (intro mult_right_mono) simp_all
  moreover have "\<bar>of_int (rne (x / q)) - x / q\<bar> * q = \<bar>of_int (rne (x / q)) * q - x\<bar>"
  proof -
    have "\<bar>of_int (rne (x / q)) - x / q\<bar> * q = \<bar>(of_int (rne (x / q)) - x / q) * q\<bar>"
      using q by (simp add: abs_mult)
    also have "(of_int (rne (x / q)) - x / q) * q = of_int (rne (x / q)) * q - x"
      using q by (simp add: left_diff_distrib)
    finally show ?thesis .
  qed
  ultimately show ?thesis by (simp add: nearest64_def q_def [symmetric] Let_def)
qed

lemma nearest64_rel: "\<bar>nearest64 x - x\<bar> \<le> \<bar>x\<bar> / 2 ^ 53 + MIN_VALUE / 2"
proof -
  have "ulp64 \<bar>x\<bar> \<le> \<bar>x\<bar> / 2 ^ 52 + MIN_VALUE" by (rule ulp64_le) simp
  then have "ulp64 \<bar>x\<bar> / 2 \<le> \<bar>x\<bar> / 2 ^ 53 + MIN_VALUE / 2" by simp
  with nearest64_err [of x] show ?thesis by linarith
qed

lemma nearest64_abs_le: "\<bar>nearest64 x\<bar> \<le> 2 * \<bar>x\<bar> + 1"
proof -
  have "\<bar>nearest64 x - x\<bar> \<le> \<bar>x\<bar> / 2 ^ 53 + MIN_VALUE / 2" by (rule nearest64_rel)
  moreover have "\<bar>x\<bar> / 2 ^ 53 \<le> \<bar>x\<bar>" by (simp add: field_simps)
  moreover have "MIN_VALUE / 2 \<le> 1" by (simp add: MIN_VALUE_def)
  ultimately show ?thesis by linarith
qed

lemma round64_Fin: "\<bar>x\<bar> \<le> 2 ^ 1022 \<Longrightarrow> round64 x = Fin (nearest64 x)"
proof -
  assume "\<bar>x\<bar> \<le> 2 ^ 1022"
  then have "2 * \<bar>x\<bar> + 1 \<le> 2 * 2 ^ 1022 + 1" by simp
  also have "\<dots> < (2::real) ^ 1024" by simp
  finally have "\<bar>nearest64 x\<bar> < 2 ^ 1024" using nearest64_abs_le [of x] by linarith
  then show ?thesis by (simp add: round64_def Let_def)
qed

lemma round64_not_NaN [simp]: "round64 x \<noteq> NaN"
  by (simp add: round64_def Let_def)

lemma ulp64_mono:
  assumes "0 \<le> a" "a \<le> b"
  shows "ulp64 a \<le> ulp64 b"
proof -
  from ulp64_spec [OF assms(1)] obtain k where k: "k \<le> 2045" "ulp64 a = 2 ^ k * MIN_VALUE"
    "k = 0 \<or> 2 ^ 52 * (2 ^ k * MIN_VALUE) \<le> a" by blast
  have "0 \<le> b" using assms by simp
  from ulp64_spec [OF this] obtain l where l: "ulp64 b = 2 ^ l * MIN_VALUE"
    "l = 2045 \<or> b < 2 ^ 53 * (2 ^ l * MIN_VALUE)" by blast
  have "k \<le> l"
  proof (rule ccontr)
    assume "\<not> k \<le> l"
    then have kl: "Suc l \<le> k" by simp
    then have "k \<noteq> 0" "l \<noteq> 2045" using k(1) by simp_all
    then have "2 ^ 52 * (2 ^ k * MIN_VALUE) \<le> a" "b < 2 ^ 53 * (2 ^ l * MIN_VALUE)"
      using k(3) l(2) by simp_all
    then have "2 ^ 52 * (2 ^ k * MIN_VALUE) < 2 ^ 53 * (2 ^ l * MIN_VALUE)"
      using assms(2) by linarith
    then have "(2::real) ^ k < 2 ^ Suc l" using MIN_VALUE_pos by simp
    then have "k < Suc l" by (rule power_less_imp_less_exp [rotated]) simp
    then show False using kl by simp
  qed
  then have "(2::real) ^ k \<le> 2 ^ l" by simp
  then show ?thesis using k(2) l(1) MIN_VALUE_pos by simp
qed

lemma nearest64_nonneg: "0 \<le> x \<Longrightarrow> 0 \<le> nearest64 x"
proof -
  assume x: "0 \<le> x"
  have q: "0 < ulp64 \<bar>x\<bar>" by (rule ulp64_pos) simp
  then have "0 \<le> x / ulp64 \<bar>x\<bar>" using x by simp
  then have "rne 0 \<le> rne (x / ulp64 \<bar>x\<bar>)" by (rule rne_mono)
  then have "0 \<le> rne (x / ulp64 \<bar>x\<bar>)" using rne_of_int [of 0] by simp
  then show ?thesis using q by (simp add: nearest64_def Let_def)
qed

text \<open>Rounding does not cross a double.\<close>

lemma nearest64_ge:
  assumes d: "nearest64 d = d" and dx: "d \<le> x"
  shows "d \<le> nearest64 x"
proof -
  define qd where "qd = ulp64 \<bar>d\<bar>"
  define qx where "qx = ulp64 \<bar>x\<bar>"
  define n where "n = rne (d / qd)"
  have qd: "0 < qd" unfolding qd_def by (rule ulp64_pos) simp
  have qx: "0 < qx" unfolding qx_def by (rule ulp64_pos) simp
  have dn: "d = of_int n * qd" using d by (simp add: nearest64_def Let_def qd_def n_def)
  have nx: "nearest64 x = of_int (rne (x / qx)) * qx" by (simp add: nearest64_def Let_def qx_def)
  from ulp64_spec [of "\<bar>d\<bar>"] obtain k where k: "k \<le> 2045" "qd = 2 ^ k * MIN_VALUE"
    "k = 2045 \<or> \<bar>d\<bar> < 2 ^ 53 * (2 ^ k * MIN_VALUE)"
    unfolding qd_def by auto
  from ulp64_spec [of "\<bar>x\<bar>"] obtain l where l: "l \<le> 2045" "qx = 2 ^ l * MIN_VALUE"
    "l = 0 \<or> 2 ^ 52 * (2 ^ l * MIN_VALUE) \<le> \<bar>x\<bar>"
    unfolding qx_def by auto
  consider "d \<le> 0" "0 \<le> x" | "0 < d" | "x < 0" by linarith
  then show ?thesis
  proof cases
    case 1
    then show ?thesis using nearest64_nonneg [of x] by simp
  next
    case 2
    then have x0: "0 < x" using dx by simp
    have "ulp64 \<bar>d\<bar> \<le> ulp64 \<bar>x\<bar>" using 2 dx by (intro ulp64_mono) simp_all
    then have "(2::real) ^ k \<le> 2 ^ l" using k(2) l(2) MIN_VALUE_pos by (simp add: qd_def qx_def)
    then have kl: "k \<le> l" by simp
    show ?thesis
    proof (cases "k = l")
      case True
      then have qq: "qx = qd" using k(2) l(2) by simp
      have "d / qd \<le> x / qd" using dx qd by (simp add: divide_right_mono)
      then have "rne (d / qd) \<le> rne (x / qd)" by (rule rne_mono)
      then have "of_int n * qd \<le> of_int (rne (x / qd)) * qd"
        using qd by (simp add: n_def)
      then show ?thesis using dn nx qq by simp
    next
      case False
      then have sl: "Suc k \<le> l" using kl by simp
      then have "l \<noteq> 0" "k \<noteq> 2045" using l(1) by simp_all
      then have lo: "2 ^ 52 * qx \<le> x" and up: "d < 2 ^ 53 * qd"
        using l(2,3) k(2,3) x0 2 by simp_all
      from lo have "2 ^ 52 \<le> x / qx" using qx by (simp add: field_simps)
      then have "of_int (2 ^ 52) \<le> x / qx" by simp
      then have "rne (of_int (2 ^ 52)) \<le> rne (x / qx)" by (rule rne_mono)
      then have "2 ^ 52 \<le> rne (x / qx)" by (simp only: rne_of_int)
      then have "(2::real) ^ 52 \<le> of_int (rne (x / qx))"
        by (metis of_int_le_iff of_int_numeral of_int_power)
      then have a: "2 ^ 52 * qx \<le> of_int (rne (x / qx)) * qx"
        using qx by (simp add: mult_right_mono)
      have "(2::real) ^ Suc k \<le> 2 ^ l" using sl by (intro power_increasing) simp_all
      then have "2 ^ Suc k * MIN_VALUE \<le> 2 ^ l * MIN_VALUE"
        using MIN_VALUE_pos by (simp only: mult_le_cancel_right_pos)
      then have "2 * qd \<le> qx" using k(2) l(2) by simp
      then have "2 ^ 53 * qd \<le> 2 ^ 52 * qx" by simp
      then show ?thesis using a nx up by linarith
    qed
  next
    case 3
    then have d0: "d < 0" using dx by simp
    have "ulp64 \<bar>x\<bar> \<le> ulp64 \<bar>d\<bar>" using 3 dx by (intro ulp64_mono) simp_all
    then have "(2::real) ^ l \<le> 2 ^ k" using k(2) l(2) MIN_VALUE_pos by (simp add: qd_def qx_def)
    then have lk: "l \<le> k" by simp
    have "qd = 2 ^ (k - l) * qx"
      using lk k(2) l(2) by (simp add: power_diff field_simps flip: power_add)
    then have dd: "d = of_int (n * 2 ^ (k - l)) * qx" using dn by simp
    then have dq: "d / qx = of_int (n * 2 ^ (k - l))" using qx by simp
    have "d / qx \<le> x / qx" using dx qx by (simp add: divide_right_mono)
    then have "rne (d / qx) \<le> rne (x / qx)" by (rule rne_mono)
    then have "n * 2 ^ (k - l) \<le> rne (x / qx)" by (simp only: dq rne_of_int)
    then have "(of_int (n * 2 ^ (k - l)) :: real) \<le> of_int (rne (x / qx))"
      by (simp only: of_int_le_iff)
    then have "of_int (n * 2 ^ (k - l)) * qx \<le> of_int (rne (x / qx)) * qx"
      using qx by (simp only: mult_le_cancel_right_pos)
    then show ?thesis using nx dd by simp
  qed
qed

text \<open>A multiple of a spacing by at most 53 bits is a double.\<close>

lemma nearest64_multiple:
  assumes "x = of_int n * (2 ^ j * MIN_VALUE)" "\<bar>n\<bar> \<le> 2 ^ 53"
  shows "nearest64 x = x"
proof -
  define q where "q = ulp64 \<bar>x\<bar>"
  have q: "0 < q" unfolding q_def by (rule ulp64_pos) simp
  from ulp64_spec [of "\<bar>x\<bar>"] obtain l where l: "q = 2 ^ l * MIN_VALUE"
    "l = 0 \<or> 2 ^ 52 * (2 ^ l * MIN_VALUE) \<le> \<bar>x\<bar>"
    unfolding q_def by auto
  have ax: "\<bar>x\<bar> = of_int \<bar>n\<bar> * (2 ^ j * MIN_VALUE)"
    using assms(1) MIN_VALUE_pos by (simp add: abs_mult)
  have "\<exists>k. x / q = of_int k"
  proof (cases "l \<le> j")
    case True
    then have "2 ^ j * MIN_VALUE = 2 ^ (j - l) * q"
      using l(1) by (simp add: power_diff field_simps flip: power_add)
    then have "x = of_int (n * 2 ^ (j - l)) * q" using assms(1) by simp
    then have "x / q = of_int (n * 2 ^ (j - l))" using q by simp
    then show ?thesis by blast
  next
    case False
    then have jl: "Suc j \<le> l" by simp
    then have "l \<noteq> 0" by simp
    then have lo: "2 ^ 52 * (2 ^ l * MIN_VALUE) \<le> \<bar>x\<bar>" using l(2) by simp
    have "(of_int \<bar>n\<bar> :: real) \<le> 2 ^ 53" using assms(2) by (metis of_int_le_iff of_int_numeral of_int_power)
    then have "\<bar>x\<bar> \<le> 2 ^ 53 * (2 ^ j * MIN_VALUE)"
      unfolding ax using MIN_VALUE_pos by (intro mult_right_mono) simp_all
    then have "2 ^ 52 * (2 ^ l * MIN_VALUE) \<le> 2 ^ 53 * (2 ^ j * MIN_VALUE)" using lo by linarith
    then have "(2::real) ^ l \<le> 2 ^ Suc j" using MIN_VALUE_pos by simp
    then have "l \<le> Suc j" by (rule power_le_imp_le_exp [rotated]) simp
    then have lj: "l = Suc j" using jl by simp
    have "2 ^ 53 * (2 ^ j * MIN_VALUE) \<le> \<bar>x\<bar>" using lo lj by simp
    then have "2 ^ 53 * (2 ^ j * MIN_VALUE) \<le> of_int \<bar>n\<bar> * (2 ^ j * MIN_VALUE)" using ax by simp
    then have "(2::real) ^ 53 \<le> of_int \<bar>n\<bar>" using MIN_VALUE_pos by simp
    then have "(of_int \<bar>n\<bar> :: real) = 2 ^ 53" using \<open>(of_int \<bar>n\<bar> :: real) \<le> 2 ^ 53\<close> by simp
    then have "\<bar>x\<bar> = 2 ^ 52 * q" using ax l(1) lj by simp
    then have "\<bar>x / q\<bar> = of_int (2 ^ 52)" using q by simp
    then have "x / q = of_int (2 ^ 52) \<or> x / q = of_int (- (2 ^ 52))"
      by (simp add: abs_if split: if_splits) 
    then show ?thesis by blast
  qed
  then obtain k where k: "x / q = of_int k" by blast
  then have xk: "of_int k * q = x" using q by (simp add: field_simps)
  have kr: "rne (x / q) = k" unfolding k by (rule rne_of_int)
  have "nearest64 x = of_int (rne (x / q)) * q" by (simp add: nearest64_def Let_def q_def)
  also have "\<dots> = of_int k * q" by (simp only: kr)
  also have "\<dots> = x" by (rule xk)
  finally show ?thesis .
qed

text \<open>A whole number up to \<open>2^53\<close> is a double.\<close>

lemma nearest64_of_nat: "k \<le> 2 ^ 53 \<Longrightarrow> nearest64 (of_nat k) = of_nat k"
proof -
  assume k: "k \<le> 2 ^ 53"
  have "(of_nat k :: real) = of_int (int k) * (2 ^ 1074 * MIN_VALUE)"
    using one_MIN_VALUE [symmetric] by simp
  moreover have "\<bar>int k\<bar> \<le> 2 ^ 53" using k by simp
  ultimately show ?thesis by (rule nearest64_multiple)
qed

text \<open>
  Below \<open>2^53\<close> the spacing of the doubles is at most 1: taking a whole number from a
  double there gives a double.
\<close>

lemma nearest64_minus_nat:
  assumes T: "nearest64 T = T" and k: "of_nat k \<le> T" and big: "T < 2 ^ 53"
  shows "nearest64 (T - of_nat k) = T - of_nat k"
proof -
  have T0: "0 \<le> T" using k by (meson of_nat_0_le_iff order_trans)
  define q where "q = ulp64 \<bar>T\<bar>"
  define n where "n = rne (T / q)"
  have q: "0 < q" unfolding q_def by (rule ulp64_pos) simp
  have Tn: "T = of_int n * q" using T by (simp add: nearest64_def Let_def q_def n_def)
  from ulp64_spec [of "\<bar>T\<bar>"] obtain j where j: "j \<le> 2045" "q = 2 ^ j * MIN_VALUE"
    "j = 2045 \<or> \<bar>T\<bar> < 2 ^ 53 * (2 ^ j * MIN_VALUE)"
    "j = 0 \<or> 2 ^ 52 * (2 ^ j * MIN_VALUE) \<le> \<bar>T\<bar>"
    unfolding q_def by auto
  have j1074: "j \<le> 1074"
  proof (rule ccontr)
    assume "\<not> j \<le> 1074"
    then have "1075 \<le> j" by simp
    then have "(2::real) ^ 1075 \<le> 2 ^ j" by (intro power_increasing) simp_all
    then have A: "2 ^ 1075 * MIN_VALUE \<le> 2 ^ j * MIN_VALUE"
      using MIN_VALUE_pos by (simp only: mult_le_cancel_right_pos)
    have B: "2 ^ 1075 * MIN_VALUE = 2" by (simp add: MIN_VALUE_def)
    from A have q2: "2 \<le> q" by (simp only: B j(2))
    have "j \<noteq> 0" using \<open>1075 \<le> j\<close> by simp
    then have "2 ^ 52 * q \<le> \<bar>T\<bar>" using j(2,4) by simp
    moreover have "2 ^ 52 * 2 \<le> 2 ^ 52 * q" using q2 by simp
    ultimately have "2 ^ 52 * 2 \<le> \<bar>T\<bar>" by linarith
    then show False using big T0 by simp
  qed
  have n0: "0 \<le> n"
  proof -
    have "0 \<le> T / q" using T0 q by simp
    then have "rne 0 \<le> rne (T / q)" by (rule rne_mono)
    then show ?thesis using rne_of_int [of 0] by (simp add: n_def)
  qed
  have "j \<noteq> 2045" using j1074 by simp
  then have "T < 2 ^ 53 * q" using j(2,3) T0 by simp
  then have "of_int n * q < 2 ^ 53 * q" using Tn by simp
  then have nb: "(of_int n :: real) < 2 ^ 53" using q by simp
  have one: "1 = 2 ^ (1074 - j) * q"
    using j1074 j(2) one_MIN_VALUE by (simp add: power_diff field_simps flip: power_add)
  define n' where "n' = n - int k * 2 ^ (1074 - j)"
  have "T - of_nat k = of_int n * q - of_nat k * (2 ^ (1074 - j) * q)"
    using Tn one by simp
  also have "\<dots> = of_int n' * q" by (simp add: n'_def algebra_simps)
  finally have x: "T - of_nat k = of_int n' * (2 ^ j * MIN_VALUE)" using j(2) by simp
  have "0 \<le> of_int n' * q" using k \<open>T - of_nat k = of_int n * q - of_nat k * (2 ^ (1074 - j) * q)\<close>
      \<open>of_int n * q - of_nat k * (2 ^ (1074 - j) * q) = of_int n' * q\<close> by simp
  then have "0 \<le> (of_int n' :: real)" using q by (simp add: zero_le_mult_iff)
  then have n'0: "0 \<le> n'" by simp
  have "n' \<le> n" by (simp add: n'_def)
  then have "(of_int n' :: real) \<le> of_int n" by simp
  then have "(of_int n' :: real) < 2 ^ 53" using nb by simp
  then have "n' < 2 ^ 53" by (metis of_int_less_iff of_int_numeral of_int_power)
  then have "\<bar>n'\<bar> \<le> 2 ^ 53" using n'0 by simp
  with x show ?thesis by (rule nearest64_multiple)
qed

text \<open>The result of a rounding is a double.\<close>

lemma nearest64_idem:
  assumes "\<bar>x\<bar> \<le> 2 ^ 1023"
  shows "nearest64 (nearest64 x) = nearest64 x"
proof -
  define q where "q = ulp64 \<bar>x\<bar>"
  define n where "n = rne (x / q)"
  have q: "0 < q" unfolding q_def by (rule ulp64_pos) simp
  from ulp64_spec [of "\<bar>x\<bar>"] obtain j where j: "j \<le> 2045" "q = 2 ^ j * MIN_VALUE"
    "j = 2045 \<or> \<bar>x\<bar> < 2 ^ 53 * (2 ^ j * MIN_VALUE)"
    "j = 0 \<or> 2 ^ 52 * (2 ^ j * MIN_VALUE) \<le> \<bar>x\<bar>"
    unfolding q_def by auto
  have up: "\<bar>x\<bar> < 2 ^ 53 * q"
  proof (cases "j = 2045")
    case True
    have "2 ^ 53 * (2 ^ 2045 * MIN_VALUE) = (2::real) ^ 1024" by (simp add: MIN_VALUE_def)
    moreover have "(2::real) ^ 1023 < 2 ^ 1024" by simp
    ultimately show ?thesis using assms True j(2) by simp
  next
    case False
    then show ?thesis using j(2,3) by simp
  qed
  define y where "y = x / q"
  have "\<bar>x\<bar> / q < 2 ^ 53" using up q by (simp add: field_simps)
  then have "\<bar>y\<bar> < 2 ^ 53" using q by (simp add: y_def)
  then have lo: "of_int (- (2 ^ 53)) \<le> y" and hi: "y \<le> of_int (2 ^ 53)" by simp_all
  have "rne (of_int (- (2 ^ 53))) \<le> rne y" using lo by (rule rne_mono)
  then have a: "- (2 ^ 53) \<le> rne y" by (simp only: rne_of_int)
  have "rne y \<le> rne (of_int (2 ^ 53))" using hi by (rule rne_mono)
  then have b: "rne y \<le> 2 ^ 53" by (simp only: rne_of_int)
  have nb: "\<bar>n\<bar> \<le> 2 ^ 53" using a b by (simp add: n_def y_def)
  have "nearest64 x = of_int n * (2 ^ j * MIN_VALUE)"
    by (simp add: nearest64_def Let_def q_def [symmetric] n_def j(2))
  then show ?thesis using nb by (rule nearest64_multiple)
qed

subsection \<open>The activity feed and cursor under the handlers\<close>

lemma fetchActivity_feed:
  "activityFeed (fetchActivity_response h now st res) =
     (case res of None \<Rightarrow> activityFeed st
      | Some data \<Rightarrow>
          if newItems_of h now data = [] then activityFeed st
          else drop (length (activityFeed st @ newItems_of h now data) - 200)
                 (activityFeed st @ newItems_of h now data))"
  by (simp add: fetchActivity_response_def Let_def split: option.splits)

lemma length_keep_last: "length (drop (length xs - n) xs) = min n (length xs)"
  by simp

lemma fetchActivity_feed_le:
  "length (activityFeed (fetchActivity_response h now st res)) \<le> max 200 (length (activityFeed st))"
proof (cases res)
  case None
  then show ?thesis by (simp add: fetchActivity_feed)
next
  case (Some data)
  define merged where "merged = activityFeed st @ newItems_of h now data"
  have "length (drop (length merged - 200) merged) \<le> 200"
    by (simp only: length_keep_last min.cobounded1)
  then have "length (drop (length merged - 200) merged) \<le> max 200 (length (activityFeed st))"
    by simp
  then show ?thesis using Some
    by (simp only: fetchActivity_feed merged_def [symmetric] option.case split: if_splits) simp
qed

lemma fetchActivity_feed_cap:
  "length (activityFeed st) \<le> 200 \<Longrightarrow>
   length (activityFeed (fetchActivity_response h now st res)) \<le> 200"
  using fetchActivity_feed_le [of h now st res] by simp

lemma sync_feed [simp]:
  "activityFeed (syncActivityCursorToLatest_response st res) = activityFeed st"
  by (simp add: syncActivityCursorToLatest_response_def split: option.splits)

lemma fetchStatus_feed:
  "activityFeed (fetchStatus_response r st res) = activityFeed st \<or>
   activityFeed (fetchStatus_response r st res) = []"
  by (simp add: fetchStatus_response_def Let_def split: option.splits)

lemma handleNewRun_feed [simp]: "activityFeed (handleNewRun st runs) = []"
  by (simp add: handleNewRun_def fetchRuns_response_def split: runs_answer.splits)

lemma loadFullRun_feed:
  "activityFeed (loadFullRun now stamp st sf res) = activityFeed st \<or>
   (\<exists>f items. sf = Some (FullRun f) \<and> fr_activity f = Some items \<and>
      activityFeed (loadFullRun now stamp st sf res) = items)"
  by (auto simp: loadFullRun_def Let_def
      split: option.splits upload_answer.splits run_file.splits)

lemma page_do_cap:
  assumes "length (activityFeed st) \<le> 200" and "length (loaded_activity e) \<le> 200"
  shows "length (activityFeed (page_do h now e st)) \<le> 200"
proof (cases e)
  case (ActivityPolled res)
  then show ?thesis using assms by (simp add: fetchActivity_feed_cap)
next
  case (StatusPolled res sync)
  then show ?thesis using assms fetchStatus_feed [of "runId st" st res]
    by (auto split: option.splits)
next
  case (NewRunClicked runs)
  then show ?thesis by simp
next
  case (RunLoaded stamp sf res)
  from loadFullRun_feed [of now stamp st sf res] show ?thesis
  proof
    assume "activityFeed (loadFullRun now stamp st sf res) = activityFeed st"
    then show ?thesis using assms(1) RunLoaded by simp
  next
    assume "\<exists>f items. sf = Some (FullRun f) \<and> fr_activity f = Some items \<and>
      activityFeed (loadFullRun now stamp st sf res) = items"
    then obtain f items where f: "sf = Some (FullRun f)" "fr_activity f = Some items"
      "activityFeed (loadFullRun now stamp st sf res) = items" by blast
    then show ?thesis using assms(2) RunLoaded by simp
  qed
qed

lemma page_run_cap:
  "length (activityFeed st) \<le> 200 \<Longrightarrow> list_all (\<lambda>e. length (loaded_activity e) \<le> 200) es \<Longrightarrow>
   length (activityFeed (page_run h now es st)) \<le> 200"
  by (induction es arbitrary: st) (simp_all add: page_do_cap)

lemma or_null_request: "(case or_null x of None \<Rightarrow> None | Some r \<Rightarrow> or_null r) = or_null x"
  by (simp add: or_null_def)

lemma fetchActivity_runId [simp]: "runId (fetchActivity_response h now st res) = runId st"
  by (simp add: fetchActivity_response_def Let_def split: option.splits)

lemma sync_runId [simp]: "runId (syncActivityCursorToLatest_response st res) = runId st"
  by (simp add: syncActivityCursorToLatest_response_def split: option.splits)

lemma sync_sources [simp]:
  "sourcesData (syncActivityCursorToLatest_response st res) = sourcesData st"
  "reportStatus (syncActivityCursorToLatest_response st res) = reportStatus st"
  by (simp_all add: syncActivityCursorToLatest_response_def split: option.splits)

subsection \<open>Event ids and cursor reads\<close>

lemma wf_ids_Nil [simp]: "wf_ids []" by (simp add: wf_ids_def)



















subsection \<open>New runs and the traces\<close>

lemma handleNewRun_fields:
  "messages (handleNewRun st runs) = []"
  "error (handleNewRun st runs) = None"
  "status (handleNewRun st runs) = ''Agents ready''"
  "isLoading (handleNewRun st runs) = False"
  "isGenerating (handleNewRun st runs) = False"
  "isPaused (handleNewRun st runs) = False"
  "queueLength (handleNewRun st runs) = 0"
  "pendingUids (handleNewRun st runs) = []"
  "plan (handleNewRun st runs) = None"
  "planGoal (handleNewRun st runs) = None"
  "planCurrentStep (handleNewRun st runs) = None"
  "runId (handleNewRun st runs) = None"
  "outputDir (handleNewRun st runs) = None"
  "activityFeed (handleNewRun st runs) = []"
  "activitySinceId (handleNewRun st runs) = 0"
  "runFilesRunId (handleNewRun st runs) = ''''"
  "runFiles (handleNewRun st runs) = []"
  "runFileName (handleNewRun st runs) = ''''"
  "runFileView (handleNewRun st runs) = \<lparr>rfv_content = '''', rfv_truncated = False\<rparr>"
  "reportStatus (handleNewRun st runs) = \<lparr>rep_status = ''none'', rep_report = None, rep_error = None\<rparr>"
  by (simp_all add: handleNewRun_def fetchRuns_response_def split: runs_answer.splits)

lemma handleNewRun_traceRuns:
  "traceRuns (handleNewRun st (Runs rs)) = rs"
  by (simp add: handleNewRun_def fetchRuns_response_def)


lemma keeps_traces_refl: "keeps_traces s s"
  by (simp add: keeps_traces_def)

lemma keeps_traces_trans:
  assumes "keeps_traces a b" "keeps_traces b c"
  shows "keeps_traces a c"
  unfolding keeps_traces_def
proof (intro conjI allI)
  show "set (ts_runs a) \<subseteq> set (ts_runs c)"
    using assms by (auto simp: keeps_traces_def)
  fix r
  have ab: "take (length (ts_log a r)) (ts_log b r) = ts_log a r"
    and bc: "take (length (ts_log b r)) (ts_log c r) = ts_log b r"
    using assms by (simp_all add: keeps_traces_def)
  have "length (take (length (ts_log a r)) (ts_log b r)) = length (ts_log a r)"
    by (simp only: ab)
  then have le: "length (ts_log a r) \<le> length (ts_log b r)" by simp
  have "take (length (ts_log a r)) (ts_log c r)
          = take (length (ts_log a r)) (take (length (ts_log b r)) (ts_log c r))"
    using le by (simp add: min_def)
  also have "\<dots> = ts_log a r" by (simp only: bc ab)
  finally show "take (length (ts_log a r)) (ts_log c r) = ts_log a r" .
qed

lemma trace_append_keeps: "keeps_traces s (snd (trace_append s r ts k p))"
  by (auto simp: keeps_traces_def trace_append_def Let_def)

lemma dequeue_next_store: "be_store (snd (dequeue_next b)) = be_store b"
  by (simp add: dequeue_next_def split: option.splits)

lemma backend_do_keeps: "keeps_traces (be_store (fst c)) (be_store (fst (backend_do x c)))"
proof -
  obtain b issued where c: "c = (b, issued)" by (cases c)
  show ?thesis
  proof (cases x)
    case (OpStartRun run_id output_dir steps)
    have "be_store (start_run run_id output_dir steps b) = be_store b"
      using dequeue_next_store [of b]
      by (auto simp: start_run_def split: option.splits prod.splits)
    then show ?thesis by (simp add: c OpStartRun keeps_traces_refl)
  next
    case (OpTrace run_id ts event_kind payload)
    then show ?thesis by (simp add: c trace_append_keeps)
  qed (simp_all add: c keeps_traces_refl submit_def update_task_def delete_task_def
        finish_run_def amend_def step_boundary_def new_run_def Let_def split: option.splits)
qed

lemma backend_run_keeps: "keeps_traces (be_store (fst c)) (be_store (fst (backend_run xs c)))"
proof (induction xs arbitrary: c)
  case Nil
  show ?case by (simp add: keeps_traces_refl)
next
  case (Cons x xs)
  have "keeps_traces (be_store (fst c)) (be_store (fst (backend_do x c)))"
    by (rule backend_do_keeps)
  moreover have "keeps_traces (be_store (fst (backend_do x c)))
                   (be_store (fst (backend_run xs (backend_do x c))))"
    by (rule Cons.IH)
  ultimately show ?case by (simp add: keeps_traces_trans)
qed


lemma sample_backend_run: "backend_run sample_ops (empty_backend, []) = (sample_backend, [0, 1])"
  by (simp add: sample_backend_def sample_ops_def submit_def Let_def empty_backend_def)

lemma sample_backend_simps:
  "be_tasks sample_backend =
     [\<lparr>t_uid = 0, t_query = ''find cafes'', t_config = J_null, t_status = Running,
       t_created_at = ''t0''\<rparr>,
      \<lparr>t_uid = 1, t_query = ''write report'', t_config = J_null, t_status = Queued,
       t_created_at = ''t1''\<rparr>]"
  "be_issued sample_backend = 2"
  "be_run sample_backend =
     Some \<lparr>rc_run_id = ''run1'', rc_output_dir = ''runs/run1'', rc_trace_config = J_null,
           rc_paused = False, rc_status_text = '''', rc_plan = sample_steps,
           rc_current_step_idx = 0\<rparr>"
  "be_mailbox sample_backend = []"
  "ts_runs (be_store sample_backend) = [''run1'']"
  "ts_log (be_store sample_backend) ''run1'' =
     [\<lparr>ev_id = 1, ev_ts = ''t2'', ev_event = ''plan_step'', ev_fields = J_null\<rparr>]"
  by (simp_all add: sample_backend_def sample_ops_def submit_def Let_def empty_backend_def
      start_run_def dequeue_next_def trace_append_def next_event_id_def empty_store_def)


subsection \<open>The retry loop\<close>

lemma no_improvement_iff:
  "no_improvement run k \<longleftrightarrow> (\<exists>j. 1 \<le> j \<and> j < k \<and> at_score (run k) \<le> at_score (run j))"
  by (auto simp: no_improvement_def list_ex_iff)

lemma no_improvement_first: "\<not> no_improvement run 0" "\<not> no_improvement run (Suc 0)"
  by (simp_all add: no_improvement_def)

lemma loop_inv_pairs:
  "loop_inv run k best stalls \<Longrightarrow> 2 \<le> j \<Longrightarrow> Suc j \<le> k \<Longrightarrow>
   no_improvement run j \<Longrightarrow> no_improvement run (Suc j) \<Longrightarrow> False"
  unfolding loop_inv_def by blast

lemma loop_inv_max:
  "loop_inv run k best stalls \<Longrightarrow> 1 \<le> j \<Longrightarrow> j \<le> k \<Longrightarrow>
   at_score (run j) \<le> at_score best \<and> \<not> at_accept (run j)"
  unfolding loop_inv_def by blast

lemma no_improvement_next:
  assumes "loop_inv run k best stalls"
  shows "no_improvement run (Suc k) \<longleftrightarrow> at_score (run (Suc k)) \<le> at_score best"
proof
  assume "no_improvement run (Suc k)"
  then obtain j where j: "1 \<le> j" "j < Suc k" "at_score (run (Suc k)) \<le> at_score (run j)"
    by (auto simp: no_improvement_iff)
  from assms j(1,2) have "at_score (run j) \<le> at_score best" by (simp add: loop_inv_def)
  with j(3) show "at_score (run (Suc k)) \<le> at_score best" by simp
next
  assume a: "at_score (run (Suc k)) \<le> at_score best"
  from assms obtain j where "1 \<le> j" "j \<le> k" "best = run j" by (auto simp: loop_inv_def)
  with a show "no_improvement run (Suc k)" by (auto simp: no_improvement_iff)
qed

lemma loop_inv_improved:
  assumes inv: "loop_inv run k best stalls"
    and rej: "\<not> at_accept (run (Suc k))"
    and imp: "at_score best < at_score (run (Suc k))"
  shows "loop_inv run (Suc k) (run (Suc k)) 0"
proof -
  have ni: "\<not> no_improvement run (Suc k)"
    using no_improvement_next [OF inv] imp by simp
  have mx: "\<forall>j. 1 \<le> j \<and> j \<le> Suc k \<longrightarrow>
              at_score (run j) \<le> at_score (run (Suc k)) \<and> \<not> at_accept (run j)"
  proof (intro allI impI)
    fix j assume j: "1 \<le> j \<and> j \<le> Suc k"
    show "at_score (run j) \<le> at_score (run (Suc k)) \<and> \<not> at_accept (run j)"
    proof (cases "j = Suc k")
      case True
      then show ?thesis using rej by simp
    next
      case False
      then have "j \<le> k" using j by simp
      then have "at_score (run j) \<le> at_score best \<and> \<not> at_accept (run j)"
        using inv j by (simp add: loop_inv_def)
      then show ?thesis using imp by simp
    qed
  qed
  have pairs: "\<forall>j. 2 \<le> j \<and> Suc j \<le> Suc k \<longrightarrow>
                 \<not> (no_improvement run j \<and> no_improvement run (Suc j))"
  proof (intro allI impI)
    fix j assume j: "2 \<le> j \<and> Suc j \<le> Suc k"
    show "\<not> (no_improvement run j \<and> no_improvement run (Suc j))"
    proof (cases "j = k")
      case True
      then show ?thesis using ni by simp
    next
      case False
      then have "Suc j \<le> k" using j by simp
      then show ?thesis using inv j by (blast dest: loop_inv_pairs loop_inv_max)
    qed
  qed
  show ?thesis unfolding loop_inv_def using mx pairs ni by auto
qed

lemma loop_inv_stalled:
  assumes inv: "loop_inv run k best stalls"
    and rej: "\<not> at_accept (run (Suc k))"
    and nimp: "\<not> at_score best < at_score (run (Suc k))"
    and st: "stalls = 0"
  shows "loop_inv run (Suc k) best 1"
proof -
  have ni: "no_improvement run (Suc k)"
    using no_improvement_next [OF inv] nimp by simp
  have k1: "1 \<le> k" using inv by (simp add: loop_inv_def)
  have best: "\<exists>j. 1 \<le> j \<and> j \<le> Suc k \<and> best = run j"
    using inv by (auto simp: loop_inv_def intro: le_SucI)
  have mx: "\<forall>j. 1 \<le> j \<and> j \<le> Suc k \<longrightarrow>
              at_score (run j) \<le> at_score best \<and> \<not> at_accept (run j)"
  proof (intro allI impI)
    fix j assume j: "1 \<le> j \<and> j \<le> Suc k"
    show "at_score (run j) \<le> at_score best \<and> \<not> at_accept (run j)"
    proof (cases "j = Suc k")
      case True
      then show ?thesis using rej nimp by simp
    next
      case False
      then have "j \<le> k" using j by simp
      then show ?thesis using inv j by (blast dest: loop_inv_pairs loop_inv_max)
    qed
  qed
  have pairs: "\<forall>j. 2 \<le> j \<and> Suc j \<le> Suc k \<longrightarrow>
                 \<not> (no_improvement run j \<and> no_improvement run (Suc j))"
  proof (intro allI impI)
    fix j assume j: "2 \<le> j \<and> Suc j \<le> Suc k"
    show "\<not> (no_improvement run j \<and> no_improvement run (Suc j))"
    proof (cases "j = k")
      case True
      then have "\<not> no_improvement run j" using inv st j by (simp add: loop_inv_def)
      then show ?thesis by simp
    next
      case False
      then have "Suc j \<le> k" using j by simp
      then show ?thesis using inv j by (blast dest: loop_inv_pairs loop_inv_max)
    qed
  qed
  show ?thesis unfolding loop_inv_def using best mx pairs ni k1 by auto
qed

lemma retry_loop_ok:
  "loop_inv run k best stalls \<Longrightarrow> k + budget = 6 \<Longrightarrow>
   retry_ok run (retry_loop run budget k best stalls)"
proof (induction budget arbitrary: k best stalls)
  case 0
  then have k: "k = 6" by simp
  from "0.prems"(1) show ?case
    unfolding retry_ok_def loop_inv_def by (auto simp: k Let_def)
next
  case (Suc budget)
  note inv = Suc.prems(1)
  have k1: "1 \<le> k" using inv by (simp add: loop_inv_def)
  have kb: "Suc k + budget = 6" using Suc.prems(2) by simp
  have k6: "Suc k \<le> 6" using kb by simp
  let ?a = "run (Suc k)"
  show ?case
  proof (cases "at_accept ?a")
    case True
    have "\<forall>j. 2 \<le> j \<and> Suc j \<le> Suc k \<and> no_improvement run j \<and> no_improvement run (Suc j)
               \<longrightarrow> Suc k = Suc j"
    proof (intro allI impI)
      fix j assume j: "2 \<le> j \<and> Suc j \<le> Suc k \<and> no_improvement run j \<and> no_improvement run (Suc j)"
      show "Suc k = Suc j"
      proof (rule ccontr)
        assume "Suc k \<noteq> Suc j"
        then have "Suc j \<le> k" using j by simp
        then show False using inv j by (blast intro: loop_inv_pairs)
      qed
    qed
    then show ?thesis using True k6
      by (simp add: retry_ok_def Let_def) (use k1 in auto)
  next
    case rej: False
    show ?thesis
    proof (cases "at_score best < at_score ?a")
      case imp: True
      have "loop_inv run (Suc k) ?a 0" by (rule loop_inv_improved [OF inv rej imp])
      then have "retry_ok run (retry_loop run budget (Suc k) ?a 0)"
        using kb by (rule Suc.IH)
      then show ?thesis using rej imp by (simp add: Let_def stall_limit_def)
    next
      case nimp: False
      have ni: "no_improvement run (Suc k)"
        using no_improvement_next [OF inv] nimp by simp
      have st2: "stalls < 2" using inv by (simp add: loop_inv_def)
      show ?thesis
      proof (cases "stalls = 0")
        case True
        have "loop_inv run (Suc k) best 1" by (rule loop_inv_stalled [OF inv rej nimp True])
        then have "retry_ok run (retry_loop run budget (Suc k) best 1)"
          using kb by (rule Suc.IH)
        then show ?thesis using rej nimp True by (simp add: Let_def stall_limit_def)
      next
        case False
        then have s1: "stalls = 1" using st2 by simp
        then have k2: "2 \<le> k" and nik: "no_improvement run k"
          using inv by (simp_all add: loop_inv_def)
        have res: "retry_loop run (Suc budget) k best stalls
                     = \<lparr>rr_verdict = FailFast, rr_kept = best, rr_attempts = Suc k\<rparr>"
          using rej nimp s1 by (simp add: Let_def stall_limit_def)
        have best: "\<exists>j. 1 \<le> j \<and> j \<le> Suc k \<and> best = run j"
          using inv by (auto simp: loop_inv_def intro: le_SucI)
        have mx: "\<forall>j. 1 \<le> j \<and> j \<le> Suc k \<longrightarrow>
              at_score (run j) \<le> at_score best \<and> \<not> at_accept (run j)"
        proof (intro allI impI)
          fix j assume j: "1 \<le> j \<and> j \<le> Suc k"
          show "at_score (run j) \<le> at_score best \<and> \<not> at_accept (run j)"
          proof (cases "j = Suc k")
            case True
            then show ?thesis using rej nimp by simp
          next
            case False
            then have "j \<le> k" using j by simp
            then show ?thesis using inv j by (blast dest: loop_inv_pairs loop_inv_max)
          qed
        qed
        have pairs: "\<forall>j. 2 \<le> j \<and> Suc j \<le> Suc k \<and> no_improvement run j \<and>
                       no_improvement run (Suc j) \<longrightarrow> Suc k = Suc j"
        proof (intro allI impI)
          fix j assume j: "2 \<le> j \<and> Suc j \<le> Suc k \<and> no_improvement run j \<and>
                       no_improvement run (Suc j)"
          show "Suc k = Suc j"
          proof (rule ccontr)
            assume "Suc k \<noteq> Suc j"
            then have "Suc j \<le> k" using j by simp
            then show False using inv j by (blast intro: loop_inv_pairs)
          qed
        qed
        show ?thesis unfolding res retry_ok_def
          using best mx pairs k2 k6 nik ni by (simp add: Let_def)
      qed
    qed
  qed
qed

lemma verify_with_retries_ok: "retry_ok run (verify_with_retries run)"
proof (cases "at_accept (run 1)")
  case True
  then show ?thesis by (simp add: verify_with_retries_def retry_ok_def Let_def) auto
next
  case False
  have "loop_inv run 1 (run 1) 0"
    using False by (auto simp: loop_inv_def no_improvement_iff)
  then have "retry_ok run (retry_loop run 5 1 (run 1) 0)"
    by (rule retry_loop_ok) simp
  then show ?thesis using False by (simp add: verify_with_retries_def max_attempts_def Let_def)
qed

subsection \<open>Polling the trace of a run\<close>



subsection \<open>Bounded, improving retries\<close>

text \<open>
  Claim C2. Whatever the attempts produce, the Verifier makes between 1 and 6 of them.
  The result it keeps is one of the attempts made. When the step is not accepted (the
  budget is exhausted, or retries failed fast), every attempt made was rejected and none
  scored better than the one kept: the best-scoring attempt is kept, never a worse one.
  When attempts \<open>j\<close> and \<open>j + 1\<close> both show no improvement over the best before them,
  attempt \<open>j + 1\<close> is the last one made: if it is not the sixth, retries have stopped
  before the budget is exhausted. A run that ends exhausted has made all 6 attempts; one
  that fails fast ends on two consecutive attempts without improvement.
\<close>

theorem verifier_bounded_retries:
  "let r = verify_with_retries run; n = rr_attempts r
   in 1 \<le> n \<and> n \<le> max_attempts \<and>
      (\<exists>j. 1 \<le> j \<and> j \<le> n \<and> rr_kept r = run j) \<and>
      (rr_verdict r \<noteq> Accepted \<longrightarrow>
         (\<forall>j. 1 \<le> j \<and> j \<le> n \<longrightarrow>
            at_score (run j) \<le> at_score (rr_kept r) \<and> \<not> at_accept (run j))) \<and>
      (rr_verdict r = Accepted \<longrightarrow> rr_kept r = run n \<and> at_accept (run n)) \<and>
      (\<forall>j. Suc j \<le> n \<and> no_improvement run j \<and> no_improvement run (Suc j)
            \<longrightarrow> n = Suc j) \<and>
      (\<forall>j. Suc j \<le> n \<and> Suc j < max_attempts \<and> no_improvement run j \<and>
            no_improvement run (Suc j) \<longrightarrow> n < max_attempts) \<and>
      (rr_verdict r = Exhausted \<longrightarrow> n = max_attempts) \<and>
      (rr_verdict r = FailFast \<longrightarrow>
         3 \<le> n \<and> no_improvement run (n - 1) \<and> no_improvement run n)"
proof -
  define r where "r = verify_with_retries run"
  define n where "n = rr_attempts r"
  have ok: "retry_ok run r" unfolding r_def by (rule verify_with_retries_ok)
  have p1: "1 \<le> n \<and> n \<le> max_attempts \<and> (\<exists>j. 1 \<le> j \<and> j \<le> n \<and> rr_kept r = run j)"
    using ok by (simp add: retry_ok_def Let_def n_def max_attempts_def)
  have p2: "rr_verdict r \<noteq> Accepted \<longrightarrow>
         (\<forall>j. 1 \<le> j \<and> j \<le> n \<longrightarrow>
            at_score (run j) \<le> at_score (rr_kept r) \<and> \<not> at_accept (run j))"
    using ok by (simp add: retry_ok_def Let_def n_def)
  have p3: "rr_verdict r = Accepted \<longrightarrow> rr_kept r = run n \<and> at_accept (run n)"
    using ok by (simp add: retry_ok_def Let_def n_def)
  have two: "\<forall>j. 2 \<le> j \<and> Suc j \<le> n \<and> no_improvement run j \<and> no_improvement run (Suc j)
               \<longrightarrow> n = Suc j"
    using ok by (simp add: retry_ok_def Let_def n_def)
  have p4: "\<forall>j. Suc j \<le> n \<and> no_improvement run j \<and> no_improvement run (Suc j) \<longrightarrow> n = Suc j"
  proof (intro allI impI)
    fix j assume j: "Suc j \<le> n \<and> no_improvement run j \<and> no_improvement run (Suc j)"
    have j0: "j \<noteq> 0"
    proof
      assume "j = 0"
      with j have "no_improvement run 0" by simp
      then show False using no_improvement_first(1) [of run] by simp
    qed
    have j1: "j \<noteq> Suc 0"
    proof
      assume "j = Suc 0"
      with j have "no_improvement run (Suc 0)" by simp
      then show False using no_improvement_first(2) [of run] by simp
    qed
    from j0 j1 have "2 \<le> j" by simp
    then show "n = Suc j" using two j by blast
  qed
  have p5: "\<forall>j. Suc j \<le> n \<and> Suc j < max_attempts \<and> no_improvement run j \<and>
            no_improvement run (Suc j) \<longrightarrow> n < max_attempts"
    using p4 by auto
  have p6: "rr_verdict r = Exhausted \<longrightarrow> n = max_attempts"
    using ok by (simp add: retry_ok_def Let_def n_def max_attempts_def)
  have p7: "rr_verdict r = FailFast \<longrightarrow>
         3 \<le> n \<and> no_improvement run (n - 1) \<and> no_improvement run n"
    using ok by (simp add: retry_ok_def Let_def n_def)
  from p1 p2 p3 p4 p5 p6 p7
  have "1 \<le> n \<and> n \<le> max_attempts \<and>
      (\<exists>j. 1 \<le> j \<and> j \<le> n \<and> rr_kept r = run j) \<and>
      (rr_verdict r \<noteq> Accepted \<longrightarrow>
         (\<forall>j. 1 \<le> j \<and> j \<le> n \<longrightarrow>
            at_score (run j) \<le> at_score (rr_kept r) \<and> \<not> at_accept (run j))) \<and>
      (rr_verdict r = Accepted \<longrightarrow> rr_kept r = run n \<and> at_accept (run n)) \<and>
      (\<forall>j. Suc j \<le> n \<and> no_improvement run j \<and> no_improvement run (Suc j)
            \<longrightarrow> n = Suc j) \<and>
      (\<forall>j. Suc j \<le> n \<and> Suc j < max_attempts \<and> no_improvement run j \<and>
            no_improvement run (Suc j) \<longrightarrow> n < max_attempts) \<and>
      (rr_verdict r = Exhausted \<longrightarrow> n = max_attempts) \<and>
      (rr_verdict r = FailFast \<longrightarrow>
         3 \<le> n \<and> no_improvement run (n - 1) \<and> no_improvement run n)"
    by blast
  then show ?thesis unfolding Let_def n_def r_def .
qed

text \<open>
  The theorem on attempts that score 3, 5, 5, 4, 9, 9 and are all rejected: the third and
  fourth do not improve on the second, so the fourth is the last, and the second is kept.
\<close>

theorem verifier_bounded_retries_witness:
  "rr_attempts (verify_with_retries sample_attempts) = 4 \<and>
   rr_verdict (verify_with_retries sample_attempts) = FailFast \<and>
   rr_kept (verify_with_retries sample_attempts) = sample_attempts 2 \<and>
   at_score (sample_attempts 2) = 5 \<and>
   no_improvement sample_attempts 3 \<and> no_improvement sample_attempts 4"
  using verifier_bounded_retries [of sample_attempts]
  by (simp add: verify_with_retries_def max_attempts_def stall_limit_def sample_attempts_def
      no_improvement_def Let_def eval_nat_numeral upt_rec)

subsection \<open>Starting a new run\<close>

text \<open>
  Claim C6. \<open>handleNewRun\<close>, whatever the backend answers: the messages, the plan with
  its goal and current step, the queue length, the pending uids, the run id and output
  directory, the activity feed and its cursor, the report status, error, status text,
  the loading, generating and paused flags and the run file viewer are reset. It sends
  \<open>POST /new_run\<close> and \<open>GET /runs\<close> and nothing else. The backend's \<open>new_run\<close> discards
  the RunContext and the mailbox and leaves the trace store as it is: every trace file
  reads as before, the runs listed are the same, and the page lists every run that has a
  trace. Whatever the backend does after the new run, every run listed before is still
  listed and every trace file still starts with what it held.
\<close>

theorem new_run_keeps_traces:
  "(let st' = handleNewRun st runs
    in messages st' = [] \<and> plan st' = None \<and> planGoal st' = None \<and>
       planCurrentStep st' = None \<and> queueLength st' = 0 \<and> pendingUids st' = [] \<and>
       runId st' = None \<and> outputDir st' = None \<and>
       activityFeed st' = [] \<and> activitySinceId st' = 0 \<and>
       reportStatus st' = \<lparr>rep_status = ''none'', rep_report = None, rep_error = None\<rparr> \<and>
       error st' = None \<and> status st' = ''Agents ready'' \<and>
       isLoading st' = False \<and> isGenerating st' = False \<and> isPaused st' = False \<and>
       runFilesRunId st' = '''' \<and> runFiles st' = [] \<and> runFileName st' = '''' \<and>
       runFileView st' = \<lparr>rfv_content = '''', rfv_truncated = False\<rparr>) \<and>
   handleNewRun_requests = [POST_new_run, GET_runs] \<and>
   be_run (new_run b) = None \<and> be_mailbox (new_run b) = [] \<and>
   be_store (new_run b) = be_store b \<and>
   (\<forall>r. trace_file (new_run b) r = trace_file b r) \<and>
   runs_endpoint (new_run b) = runs_endpoint b \<and>
   traceRuns (handleNewRun st (runs_endpoint (new_run b))) = map J_str (ts_runs (be_store b)) \<and>
   (let b2 = fst (backend_run ops (new_run b, issued))
    in set (ts_runs (be_store b)) \<subseteq> set (ts_runs (be_store b2)) \<and>
       (\<forall>r. take (length (trace_file b r)) (trace_file b2 r) = trace_file b r))"
proof -
  have "keeps_traces (be_store (new_run b)) (be_store (fst (backend_run ops (new_run b, issued))))"
    using backend_run_keeps [of "(new_run b, issued)" ops] by simp
  then have k: "keeps_traces (be_store b) (be_store (fst (backend_run ops (new_run b, issued))))"
    by (simp add: new_run_def)
  show ?thesis using k
    by (simp add: Let_def handleNewRun_fields handleNewRun_requests_def new_run_def
      trace_file_def runs_endpoint_def handleNewRun_traceRuns keeps_traces_def)
qed

text \<open>
  The theorem on a backend with an active run that has written one trace event: after
  the new run there is no active run, the event is still in the trace file, and the page
  lists the run; the activity cursor of the page is back at 0.
\<close>

theorem new_run_keeps_traces_witness:
  "be_run sample_backend \<noteq> None \<and> be_run (new_run sample_backend) = None \<and>
   trace_file (new_run sample_backend) ''run1''
     = [\<lparr>ev_id = 1, ev_ts = ''t2'', ev_event = ''plan_step'', ev_fields = J_null\<rparr>] \<and>
   traceRuns (handleNewRun initial_ui (runs_endpoint (new_run sample_backend)))
     = [J_str ''run1''] \<and>
   activitySinceId (handleNewRun (initial_ui\<lparr>activitySinceId := 9\<rparr>) RunsFailed) = 0"
  using new_run_keeps_traces [where b = sample_backend and st = "initial_ui\<lparr>activitySinceId := 9\<rparr>"
      and runs = RunsFailed and ops = "[]" and issued = "[]"]
    new_run_keeps_traces [where b = sample_backend and st = initial_ui
      and runs = RunsFailed and ops = "[]" and issued = "[]"]
  by (simp add: sample_backend_simps Let_def trace_file_def new_run_def runs_endpoint_def
      handleNewRun_traceRuns handleNewRun_fields)

subsection \<open>A status poll that reports another run\<close>

text \<open>
  What \<open>fetchStatus\<close> does when the run reported is not the run the page showed when
  the poll was sent: the cursor is 0, the feed is empty, the sources are the empty list
  bound to the run reported, the report status is reset, the run shown is the run
  reported, and the synchronisation of the cursor is started for it.
\<close>

lemma fetchStatus_resets:
  assumes "or_null (sd_run_id data) \<noteq> shown_run"
  shows "activitySinceId (fetchStatus_response shown_run st (Some data)) = 0"
    and "activityFeed (fetchStatus_response shown_run st (Some data)) = []"
    and "sourcesData (fetchStatus_response shown_run st (Some data))
           = \<lparr>src_run_id = or_null (sd_run_id data), src_updated_at = None, src_sources = []\<rparr>"
    and "reportStatus (fetchStatus_response shown_run st (Some data))
           = \<lparr>rep_status = ''none'', rep_report = None, rep_error = None\<rparr>"
    and "runId (fetchStatus_response shown_run st (Some data)) = or_null (sd_run_id data)"
    and "fetchStatus_sync shown_run (Some data)
           = Some \<lparr>ar_run_id = or_null (sd_run_id data), ar_since_id = 0, ar_limit = 1\<rparr>"
  using assms
  by (simp_all add: fetchStatus_response_def fetchStatus_sync_def Let_def
      syncActivityCursorToLatest_request_def or_null_request)

text \<open>
  Claim C7 fails on the code. The polls of one tick are sent together, for the run the
  page shows at the tick. On \<open>sample_page\<close>, which shows \<open>run1\<close>, the tick asks for the
  activity of \<open>run1\<close> after event 7 and for the sources of \<open>run1\<close>. The status answer
  reports \<open>run2\<close>: the feed is emptied, the cursor reset and the sources cleared and bound
  to \<open>run2\<close>, as the claim says. Then the two answers for \<open>run1\<close> arrive and are applied
  to the page as it is now: the feed shows event 8 of \<open>run1\<close>, the cursor is 8, and the
  sources are those of \<open>run1\<close>, while the run shown is \<open>run2\<close>.
\<close>

theorem stale_answers_after_reset:
  "tick sample_page
     = \<lparr>tk_shown = Some ''run1'',
        tk_activity = \<lparr>ar_run_id = Some ''run1'', ar_since_id = 7, ar_limit = 200\<rparr>,
        tk_sources = Some ''run1''\<rparr> \<and>
   runId (answers_run sample_renderers ''now'' (tick sample_page) (take 2 sample_answers)
            sample_page) = Some ''run2'' \<and>
   activityFeed (answers_run sample_renderers ''now'' (tick sample_page) (take 2 sample_answers)
            sample_page) = [] \<and>
   activitySinceId (answers_run sample_renderers ''now'' (tick sample_page)
            (take 2 sample_answers) sample_page) = 4 \<and>
   sourcesData (answers_run sample_renderers ''now'' (tick sample_page) (take 2 sample_answers)
            sample_page)
     = \<lparr>src_run_id = Some ''run2'', src_updated_at = None, src_sources = []\<rparr> \<and>
   runId (answers_run sample_renderers ''now'' (tick sample_page) sample_answers sample_page)
     = Some ''run2'' \<and>
   activityFeed (answers_run sample_renderers ''now'' (tick sample_page) sample_answers
            sample_page)
     = [toFeedItem sample_renderers ''now'' (sample_event 8)] \<and>
   activitySinceId (answers_run sample_renderers ''now'' (tick sample_page) sample_answers
            sample_page) = 8 \<and>
   sourcesData (answers_run sample_renderers ''now'' (tick sample_page) sample_answers
            sample_page)
     = \<lparr>src_run_id = Some ''run1'', src_updated_at = Some ''t'',
        src_sources = [J_str ''a source of run1'']\<rparr>"
  by (simp add: tick_def sample_page_def sample_answers_def sample_status_def initial_ui_def
      fetchActivity_request_def fetchSources_request_def or_null_def
      fetchStatus_response_def syncActivityCursorToLatest_response_def
      fetchActivity_response_def fetchSources_response_def newItems_of_def shown_def
      toFeedItem_def sample_renderers_def sample_event_def js_blank_def Let_def)

subsection \<open>Rendering a relevancy score\<close>














subsection \<open>The size of the activity feed\<close>

text \<open>
  Claim C9, as stated, fails. \<open>loadFullRun\<close> installs the activity lines of a saved
  run as they are, and a poll that brings no new line leaves the feed alone: after a
  save with 201 lines is loaded, the next activity poll, answered with no event, leaves
  a feed of 201 lines.
\<close>

theorem activityFeed_over_cap:
  "length (activityFeed (page_run sample_renderers ''now''
      [RunLoaded ''0'' (Some (FullRun sample_save)) (UploadData True),
       ActivityPolled (Some \<lparr>ad_events = Some [], ad_next_since_id = Some 0,
                              ad_latest_id = Some 0\<rparr>)]
      initial_ui)) = 201"
  by (simp add: loadFullRun_def sample_save_def fetchActivity_response_def newItems_of_def
      Let_def)

text \<open>
  Claim C9, amended. Every activity poll asks for at most 200 events (\<open>limit = 200\<close>).
  When a poll brings new lines, the feed becomes the last 200 lines of the old feed
  followed by the new lines: all of them when they are at most 200, else exactly 200, the
  oldest dropped. A poll that brings no new line leaves the feed as it is. So a poll never
  takes a feed of at most 200 lines over 200, and from the state the page starts in,
  whatever the polls, status polls, new runs and loads of saved runs that follow and
  whatever they are answered, the feed never holds more than 200 lines as long as no
  saved run that is loaded holds more than 200 activity lines.
\<close>

theorem activityFeed_capped:
  "ar_limit (fetchActivity_request st) = 200 \<and>
   (newItems_of h now data \<noteq> [] \<longrightarrow>
      (let merged = activityFeed st @ newItems_of h now data;
           feed = activityFeed (fetchActivity_response h now st (Some data))
       in feed = drop (length merged - 200) merged \<and> length feed \<le> 200 \<and>
          (length merged \<le> 200 \<longrightarrow> feed = merged) \<and>
          (200 \<le> length merged \<longrightarrow> length feed = 200))) \<and>
   (newItems_of h now quiet = [] \<longrightarrow>
      activityFeed (fetchActivity_response h now st (Some quiet)) = activityFeed st) \<and>
   activityFeed (fetchActivity_response h now st None) = activityFeed st \<and>
   (length (activityFeed st) \<le> 200 \<longrightarrow>
      length (activityFeed (fetchActivity_response h now st res)) \<le> 200) \<and>
   (list_all (\<lambda>e. length (loaded_activity e) \<le> 200) es \<longrightarrow>
      length (activityFeed (page_run h now es initial_ui)) \<le> 200)"
proof (intro conjI impI)
  show "ar_limit (fetchActivity_request st) = 200" by (simp add: fetchActivity_request_def)
  show "activityFeed (fetchActivity_response h now st (Some quiet)) = activityFeed st"
    if "newItems_of h now quiet = []" using that by (simp add: fetchActivity_feed)
  show "activityFeed (fetchActivity_response h now st None) = activityFeed st"
    by (simp add: fetchActivity_feed)
  show "length (activityFeed (fetchActivity_response h now st res)) \<le> 200"
    if "length (activityFeed st) \<le> 200" using that by (rule fetchActivity_feed_cap)
  show "length (activityFeed (page_run h now es initial_ui)) \<le> 200"
    if "list_all (\<lambda>e. length (loaded_activity e) \<le> 200) es"
    using _ that by (rule page_run_cap) (simp add: initial_ui_def)
  show "let merged = activityFeed st @ newItems_of h now data;
           feed = activityFeed (fetchActivity_response h now st (Some data))
       in feed = drop (length merged - 200) merged \<and> length feed \<le> 200 \<and>
          (length merged \<le> 200 \<longrightarrow> feed = merged) \<and>
          (200 \<le> length merged \<longrightarrow> length feed = 200)"
    if ne: "newItems_of h now data \<noteq> []"
  proof -
    define merged where "merged = activityFeed st @ newItems_of h now data"
    define feed where "feed = activityFeed (fetchActivity_response h now st (Some data))"
    have f: "feed = drop (length merged - 200) merged"
      using ne by (simp add: feed_def merged_def fetchActivity_feed)
    have l: "length feed = min 200 (length merged)"
      unfolding f by (rule length_keep_last)
    have "feed = drop (length merged - 200) merged \<and> length feed \<le> 200 \<and>
          (length merged \<le> 200 \<longrightarrow> feed = merged) \<and>
          (200 \<le> length merged \<longrightarrow> length feed = 200)"
      using f l by simp
    then show ?thesis unfolding Let_def feed_def merged_def .
  qed
qed

text \<open>
  The theorem on a feed of 200 lines and a poll that brings one more: the oldest line
  goes, the new one is last. A poll answered with no event leaves the 200 lines; and the
  feed stays within 200 lines when a save without activity lines is loaded and a poll
  follows.
\<close>

lemma sample_newItems:
  "newItems_of sample_renderers ''now''
     \<lparr>ad_events = Some [sample_event 8], ad_next_since_id = Some 8, ad_latest_id = Some 8\<rparr>
   = [toFeedItem sample_renderers ''now'' (sample_event 8)]"
  by (simp add: newItems_of_def shown_def toFeedItem_def sample_renderers_def sample_event_def
      js_blank_def)

lemma sample_quiet:
  "newItems_of sample_renderers ''now''
     \<lparr>ad_events = Some [], ad_next_since_id = Some 0, ad_latest_id = Some 0\<rparr> = []"
  by (simp add: newItems_of_def)

theorem activityFeed_capped_witness:
  "activityFeed (fetchActivity_response sample_renderers ''now''
       (initial_ui\<lparr>activityFeed := replicate 200 sample_item\<rparr>)
       (Some \<lparr>ad_events = Some [sample_event 8], ad_next_since_id = Some 8, ad_latest_id = Some 8\<rparr>))
     = replicate 199 sample_item @ [toFeedItem sample_renderers ''now'' (sample_event 8)] \<and>
   activityFeed (fetchActivity_response sample_renderers ''now''
       (initial_ui\<lparr>activityFeed := replicate 200 sample_item\<rparr>)
       (Some \<lparr>ad_events = Some [], ad_next_since_id = Some 0, ad_latest_id = Some 0\<rparr>))
     = replicate 200 sample_item \<and>
   length (activityFeed (initial_ui\<lparr>activityFeed := replicate 200 sample_item\<rparr>)) \<le> 200 \<and>
   newItems_of sample_renderers ''now''
       \<lparr>ad_events = Some [sample_event 8], ad_next_since_id = Some 8, ad_latest_id = Some 8\<rparr> \<noteq> [] \<and>
   newItems_of sample_renderers ''now''
       \<lparr>ad_events = Some [], ad_next_since_id = Some 0, ad_latest_id = Some 0\<rparr> = [] \<and>
   list_all (\<lambda>e. length (loaded_activity e) \<le> 200)
       [RunLoaded ''0'' (Some (FullRun (sample_save\<lparr>fr_activity := None\<rparr>))) (UploadData True),
        ActivityPolled (Some \<lparr>ad_events = Some [sample_event 8], ad_next_since_id = Some 8,
                               ad_latest_id = Some 8\<rparr>)] \<and>
   length (activityFeed (page_run sample_renderers ''now''
       [RunLoaded ''0'' (Some (FullRun (sample_save\<lparr>fr_activity := None\<rparr>))) (UploadData True),
        ActivityPolled (Some \<lparr>ad_events = Some [sample_event 8], ad_next_since_id = Some 8,
                               ad_latest_id = Some 8\<rparr>)]
       initial_ui)) \<le> 200"
  using activityFeed_capped [where st = "initial_ui\<lparr>activityFeed := replicate 200 sample_item\<rparr>"
      and h = sample_renderers and now = "''now''" and res = None
      and es = "[RunLoaded ''0'' (Some (FullRun (sample_save\<lparr>fr_activity := None\<rparr>))) (UploadData True),
        ActivityPolled (Some \<lparr>ad_events = Some [sample_event 8], ad_next_since_id = Some 8,
                               ad_latest_id = Some 8\<rparr>)]"
      and data = "\<lparr>ad_events = Some [sample_event 8], ad_next_since_id = Some 8, ad_latest_id = Some 8\<rparr>"
      and quiet = "\<lparr>ad_events = Some [], ad_next_since_id = Some 0, ad_latest_id = Some 0\<rparr>"]
  by (simp add: sample_newItems sample_quiet Let_def)

subsection \<open>Dragging a resize handle\<close>

text \<open>The definitions by which a rounding is evaluated on given numbers.\<close>

lemmas double_eval = round64_def nearest64_def ulp64_def ulp_down_numeral ulp_up_numeral rne_def Let_def

lemma dxPct_not_NaN:
  "w \<noteq> 0 \<Longrightarrow> js_mul (js_div (js_sub (Fin cx) (Fin x0)) (Fin w)) (Fin 100) \<noteq> NaN"
proof -
  assume w: "w \<noteq> 0"
  have a: "js_sub (Fin cx) (Fin x0) \<noteq> NaN" by (simp add: js_sub_def)
  have b: "js_div x (Fin w) \<noteq> NaN" if "x \<noteq> NaN" for x
    using that w by (cases x) simp_all
  have c: "js_mul x (Fin 100) \<noteq> NaN" if "x \<noteq> NaN" for x
    using that by (cases x) simp_all
  show ?thesis by (intro c b a)
qed

lemma js_add_Fin_not_NaN: "z \<noteq> NaN \<Longrightarrow> js_add (Fin l) z \<noteq> NaN"
  by (cases z) simp_all

lemma clamp_Fin:
  "a \<noteq> NaN \<Longrightarrow> \<exists>n. clamp a (Fin m) (Fin hi) = Fin n \<and> m \<le> n \<and> n \<le> max m hi"
  by (cases a) (auto simp: clamp_def)

lemma js_add_Fin: "\<bar>x + y\<bar> \<le> 2 ^ 1022 \<Longrightarrow> js_add (Fin x) (Fin y) = Fin (nearest64 (x + y))"
  by (simp add: round64_Fin)

lemma js_sub_Fin: "\<bar>x - y\<bar> \<le> 2 ^ 1022 \<Longrightarrow> js_sub (Fin x) (Fin y) = Fin (nearest64 (x - y))"
  by (simp add: js_sub_def round64_Fin)

lemma handleMouseMove_run:
  assumes i: "i + 1 < length rs" and w: "w \<noteq> 0"
    and bl: "\<bar>rs ! i\<bar> \<le> 2 ^ 1000" and br: "\<bar>rs ! (i + 1)\<bar> \<le> 2 ^ 1000"
    and bm: "\<bar>m\<bar> \<le> 2 ^ 1000"
  shows "\<exists>n. handleMouseMove (Some i) (Some w) \<lparr>ds_x = x0, ds_widths = map Fin rs\<rparr> (Fin m) cx
               = Some (map Fin (rs[i := n, i + 1 := nearest64 (nearest64 (rs ! i + rs ! (i + 1)) - n)]))
             \<and> js_add (Fin (rs ! i)) (Fin (rs ! (i + 1))) = Fin (nearest64 (rs ! i + rs ! (i + 1)))
             \<and> m \<le> n
             \<and> n \<le> max m (nearest64 (nearest64 (rs ! i + rs ! (i + 1)) - m))"
proof -
  define B :: real where "B = 2 ^ 1000"
  have B1: "1 \<le> B" by (simp add: B_def)
  have B22: "18 * B \<le> 2 ^ 1022" by (simp add: B_def)
  define l where "l = rs ! i"
  define r where "r = rs ! Suc i"
  define T where "T = nearest64 (l + r)"
  define hi where "hi = nearest64 (T - m)"
  define dxPct where "dxPct = js_mul (js_div (js_sub (Fin cx) (Fin x0)) (Fin w)) (Fin 100)"
  have lB: "\<bar>l\<bar> \<le> B" and rB: "\<bar>r\<bar> \<le> B" and mB: "\<bar>m\<bar> \<le> B"
    using bl br bm by (simp_all add: l_def r_def B_def)
  have rr: "rs ! (i + 1) = r" by (simp add: r_def)
  have "\<bar>l + r\<bar> \<le> 2 * B" using lB rB by linarith
  then have lr: "\<bar>l + r\<bar> \<le> 2 ^ 1022" using B22 B1 by linarith
  have total: "js_add (Fin l) (Fin r) = Fin T" unfolding T_def by (rule js_add_Fin [OF lr])
  have TB: "\<bar>T\<bar> \<le> 5 * B"
    using nearest64_abs_le [of "l + r"] \<open>\<bar>l + r\<bar> \<le> 2 * B\<close> B1 by (simp add: T_def)
  have "\<bar>T - m\<bar> \<le> 6 * B" using TB mB by linarith
  then have Tm: "\<bar>T - m\<bar> \<le> 2 ^ 1022" using B22 B1 by linarith
  have hi: "js_sub (Fin T) (Fin m) = Fin hi" unfolding hi_def by (rule js_sub_Fin [OF Tm])
  have hB: "\<bar>hi\<bar> \<le> 13 * B"
    using nearest64_abs_le [of "T - m"] \<open>\<bar>T - m\<bar> \<le> 6 * B\<close> B1 by (simp add: hi_def)
  have "dxPct \<noteq> NaN" unfolding dxPct_def by (rule dxPct_not_NaN [OF w])
  then have "js_add (Fin l) dxPct \<noteq> NaN" by (rule js_add_Fin_not_NaN)
  from clamp_Fin [OF this, of m hi] obtain n where
    n: "clamp (js_add (Fin l) dxPct) (Fin m) (Fin hi) = Fin n" "m \<le> n" "n \<le> max m hi"
    by blast
  have nB: "\<bar>n\<bar> \<le> 13 * B" using n(2,3) mB hB B1 by (auto simp: max_def abs_if split: if_splits)
  have "\<bar>T - n\<bar> \<le> 18 * B" using TB nB by linarith
  then have Tn: "\<bar>T - n\<bar> \<le> 2 ^ 1022" using B22 by linarith
  have right: "js_sub (Fin T) (Fin n) = Fin (nearest64 (T - n))" by (rule js_sub_Fin [OF Tn])
  have i1: "i < length rs" using i by simp
  have "handleMouseMove (Some i) (Some w) \<lparr>ds_x = x0, ds_widths = map Fin rs\<rparr> (Fin m) cx
          = Some (map Fin (rs[i := n, i + 1 := nearest64 (T - n)]))"
    using i i1 w total hi n(1) right
    by (simp add: handleMouseMove_def Let_def js_nth_def js_set_def dxPct_def [symmetric]
        l_def [symmetric] r_def [symmetric] map_update)
  then show ?thesis using total n(2,3) unfolding rr T_def hi_def l_def by blast
qed

text \<open>
  Claim C10, as stated, fails: the widths are doubles, and the sums and differences of
  the handler are rounded. Two panes of 13.907284768211921 and 47.682119205298015
  percent, the handle dragged 147 pixels across a container of 1476 pixels with a
  minimum of 15: the sum at drag start is 61.58940397350994 and the new widths
  23.866634361707856 and 37.72276961180208 add up to 61.58940397350993, as doubles and
  as real numbers. Two panes of 50 percent with a minimum of 15.3, the handle dragged
  far to the right: the right pane ends at 15.299999999999997, below the minimum.
  (The doubles are written as fractions of powers of two.)
\<close>

theorem handleMouseMove_rounds:
  "handleMouseMove (Some 0) (Some 1476)
     \<lparr>ds_x = 0, ds_widths = [Fin (7829105312481823 / 2 ^ 49), Fin (6710661696412991 / 2 ^ 47)]\<rparr>
     (Fin 15) 147
   = Some [Fin (6717860351123461 / 2 ^ 48), Fin (1327251962242929 / 2 ^ 45)] \<and>
   js_add (Fin (7829105312481823 / 2 ^ 49)) (Fin (6710661696412991 / 2 ^ 47))
     = Fin (8667938024533447 / 2 ^ 47) \<and>
   js_add (Fin (6717860351123461 / 2 ^ 48)) (Fin (1327251962242929 / 2 ^ 45))
     = Fin (4333969012266723 / 2 ^ 46) \<and>
   (6717860351123461 / 2 ^ 48 + 1327251962242929 / 2 ^ 45 :: real)
     \<noteq> 7829105312481823 / 2 ^ 49 + 6710661696412991 / 2 ^ 47 \<and>
   handleMouseMove (Some 0) (Some 1000) \<lparr>ds_x = 0, ds_widths = [Fin 50, Fin 50]\<rparr>
     (Fin (4306567143673037 / 2 ^ 48)) 5000
   = Some [Fin (5960232631848141 / 2 ^ 46), Fin (1076641785918259 / 2 ^ 46)] \<and>
   (2 * (4306567143673037 / 2 ^ 48) :: real) \<le> 50 + 50 \<and>
   (1076641785918259 / 2 ^ 46 :: real) < 4306567143673037 / 2 ^ 48"
  by (simp add: handleMouseMove_def js_nth_def js_set_def js_sub_def clamp_def double_eval)

text \<open>
  Claim C10, amended. A drag step at handle \<open>i\<close> of a layout whose drag-start widths
  \<open>rs\<close> are finite numbers (\<open>i + 1\<close> is a pane, the container has a width; the two
  widths and \<open>minPaneWidthPct\<close> are below \<open>2^1000\<close> in size, so that nothing overflows):
  the widths handed to \<open>onWidthsChange\<close> are again one finite number per pane, and every
  pane other than \<open>i\<close> and \<open>i + 1\<close> keeps its drag-start width. With \<open>total\<close> the sum of
  the two drag-start widths as the handler computes it, which is their sum rounded to a
  double, the new right width is \<open>total\<close> minus the new left width, rounded to a double:
  the two new widths add up to \<open>total\<close> up to that rounding, a relative error of at most
  \<open>2^-53\<close> (plus \<open>2^-1075\<close>, which counts for the smallest numbers only). When \<open>total\<close> is at least twice
  \<open>minPaneWidthPct\<close>, the left width is at least \<open>minPaneWidthPct\<close>, and the right width
  is so up to the rounding of \<open>total - minPaneWidthPct\<close> and of the right width itself; it
  is at least \<open>minPaneWidthPct\<close> exactly when \<open>minPaneWidthPct\<close> is a double and
  \<open>total - minPaneWidthPct\<close> needs no rounding, which is so when \<open>minPaneWidthPct\<close> is a
  whole number, as the default 15, and \<open>total\<close> is below \<open>2^53\<close>.
\<close>

theorem handleMouseMove_frame:
  assumes "i + 1 < length rs" "w \<noteq> 0"
    and "\<bar>rs ! i\<bar> \<le> 2 ^ 1000" "\<bar>rs ! (i + 1)\<bar> \<le> 2 ^ 1000" "\<bar>m\<bar> \<le> 2 ^ 1000"
  shows "\<exists>rs'. handleMouseMove (Some i) (Some w) \<lparr>ds_x = x0, ds_widths = map Fin rs\<rparr> (Fin m) cx
                 = Some (map Fin rs') \<and>
               length rs' = length rs \<and>
               (\<forall>j < length rs. j \<noteq> i \<and> j \<noteq> i + 1 \<longrightarrow> rs' ! j = rs ! j) \<and>
               (let total = nearest64 (rs ! i + rs ! (i + 1))
                in js_add (Fin (rs ! i)) (Fin (rs ! (i + 1))) = Fin total \<and>
                   \<bar>total - (rs ! i + rs ! (i + 1))\<bar>
                     \<le> \<bar>rs ! i + rs ! (i + 1)\<bar> / 2 ^ 53 + MIN_VALUE / 2 \<and>
                   rs' ! (i + 1) = nearest64 (total - rs' ! i) \<and>
                   \<bar>rs' ! i + rs' ! (i + 1) - total\<bar>
                     \<le> \<bar>total - rs' ! i\<bar> / 2 ^ 53 + MIN_VALUE / 2 \<and>
                   (2 * m \<le> total \<longrightarrow>
                      m \<le> rs' ! i \<and>
                      m - (\<bar>total - m\<bar> + \<bar>total - rs' ! i\<bar>) / 2 ^ 53 - MIN_VALUE
                        \<le> rs' ! (i + 1) \<and>
                      (nearest64 m = m \<and> nearest64 (total - m) = total - m \<longrightarrow>
                         m \<le> rs' ! (i + 1)) \<and>
                      ((\<exists>k::nat. m = of_nat k) \<and> total < 2 ^ 53 \<longrightarrow>
                         m \<le> rs' ! (i + 1))))"
proof -
  define T where "T = nearest64 (rs ! i + rs ! (i + 1))"
  define hi where "hi = nearest64 (T - m)"
  from handleMouseMove_run [OF assms, of x0 cx] obtain n where
    run: "handleMouseMove (Some i) (Some w) \<lparr>ds_x = x0, ds_widths = map Fin rs\<rparr> (Fin m) cx
            = Some (map Fin (rs[i := n, i + 1 := nearest64 (T - n)]))"
    and total: "js_add (Fin (rs ! i)) (Fin (rs ! (i + 1))) = Fin T"
    and mn: "m \<le> n" and nh: "n \<le> max m hi"
    unfolding T_def hi_def by blast
  define nr where "nr = nearest64 (T - n)"
  define rs' where "rs' = rs[i := n, i + 1 := nr]"
  have len: "length rs' = length rs" by (simp add: rs'_def)
  have li: "rs' ! i = n" using assms(1) by (simp add: rs'_def)
  have ri: "rs' ! (i + 1) = nr" using assms(1) by (simp add: rs'_def)
  have other: "\<forall>j < length rs. j \<noteq> i \<and> j \<noteq> i + 1 \<longrightarrow> rs' ! j = rs ! j"
    by (simp add: rs'_def)
  have e0: "\<bar>T - (rs ! i + rs ! (i + 1))\<bar> \<le> \<bar>rs ! i + rs ! (i + 1)\<bar> / 2 ^ 53 + MIN_VALUE / 2"
    unfolding T_def by (rule nearest64_rel)
  have e2: "\<bar>nr - (T - n)\<bar> \<le> \<bar>T - n\<bar> / 2 ^ 53 + MIN_VALUE / 2"
    unfolding nr_def by (rule nearest64_rel)
  then have sum: "\<bar>n + nr - T\<bar> \<le> \<bar>T - n\<bar> / 2 ^ 53 + MIN_VALUE / 2"
    by (simp add: algebra_simps)
  have e1: "\<bar>hi - (T - m)\<bar> \<le> \<bar>T - m\<bar> / 2 ^ 53 + MIN_VALUE / 2"
    unfolding hi_def by (rule nearest64_rel)
  have low: "m - (\<bar>T - m\<bar> + \<bar>T - n\<bar>) / 2 ^ 53 - MIN_VALUE \<le> nr" if "2 * m \<le> T"
  proof -
    have "n \<le> T - m + (\<bar>T - m\<bar> / 2 ^ 53 + MIN_VALUE / 2)"
      using nh e1 that MIN_VALUE_pos by (auto simp: max_def split: if_splits)
    then have "m - (\<bar>T - m\<bar> / 2 ^ 53 + MIN_VALUE / 2) \<le> T - n" by linarith
    moreover have "T - n - (\<bar>T - n\<bar> / 2 ^ 53 + MIN_VALUE / 2) \<le> nr" using e2 by linarith
    ultimately show ?thesis by (simp add: add_divide_distrib) 
  qed
  have exact: "m \<le> nr" if "2 * m \<le> T" "nearest64 m = m" "nearest64 (T - m) = T - m"
  proof -
    have "hi = T - m" using that(3) by (simp add: hi_def)
    then have "n \<le> T - m" using nh that(1) by (auto simp: max_def split: if_splits)
    then have "m \<le> T - n" by simp
    with that(2) show ?thesis unfolding nr_def by (rule nearest64_ge)
  qed
  have whole: "m \<le> nr" if "2 * m \<le> T" "\<exists>k::nat. m = of_nat k" "T < 2 ^ 53"
  proof -
    from that(2) obtain k :: nat where k: "m = of_nat k" by blast
    have "\<bar>rs ! i + rs ! (i + 1)\<bar> \<le> 2 * 2 ^ 1000" using assms(3,4) by linarith
    moreover have "2 * 2 ^ 1000 \<le> (2::real) ^ 1023" by simp
    ultimately have "\<bar>rs ! i + rs ! (i + 1)\<bar> \<le> 2 ^ 1023" by linarith
    then have Td: "nearest64 T = T" unfolding T_def by (rule nearest64_idem)
    have m0: "0 \<le> m" by (simp add: k)
    then have mT: "of_nat k \<le> T" using that(1) k by linarith
    then have "real k < 2 ^ 53" using that(3) by linarith
    then have "k < 2 ^ 53" by (metis of_nat_less_iff of_nat_numeral of_nat_power)
    then have "nearest64 (of_nat k) = of_nat k" by (intro nearest64_of_nat) simp
    moreover have "nearest64 (T - of_nat k) = T - of_nat k"
      using Td mT that(3) by (rule nearest64_minus_nat)
    ultimately show ?thesis using exact [OF that(1)] by (simp add: k)
  qed
  have "handleMouseMove (Some i) (Some w) \<lparr>ds_x = x0, ds_widths = map Fin rs\<rparr> (Fin m) cx
                 = Some (map Fin rs') \<and>
               length rs' = length rs \<and>
               (\<forall>j < length rs. j \<noteq> i \<and> j \<noteq> i + 1 \<longrightarrow> rs' ! j = rs ! j) \<and>
               (js_add (Fin (rs ! i)) (Fin (rs ! (i + 1))) = Fin T \<and>
                   \<bar>T - (rs ! i + rs ! (i + 1))\<bar>
                     \<le> \<bar>rs ! i + rs ! (i + 1)\<bar> / 2 ^ 53 + MIN_VALUE / 2 \<and>
                   rs' ! (i + 1) = nearest64 (T - rs' ! i) \<and>
                   \<bar>rs' ! i + rs' ! (i + 1) - T\<bar>
                     \<le> \<bar>T - rs' ! i\<bar> / 2 ^ 53 + MIN_VALUE / 2 \<and>
                   (2 * m \<le> T \<longrightarrow>
                      m \<le> rs' ! i \<and>
                      m - (\<bar>T - m\<bar> + \<bar>T - rs' ! i\<bar>) / 2 ^ 53 - MIN_VALUE
                        \<le> rs' ! (i + 1) \<and>
                      (nearest64 m = m \<and> nearest64 (T - m) = T - m \<longrightarrow>
                         m \<le> rs' ! (i + 1)) \<and>
                      ((\<exists>k::nat. m = of_nat k) \<and> T < 2 ^ 53 \<longrightarrow>
                         m \<le> rs' ! (i + 1))))"
    unfolding li ri using run len other total e0 sum low exact whole mn
    by (simp add: rs'_def nr_def)
  then show ?thesis unfolding T_def Let_def by blast
qed

lemma sample_drag:
  "handleMouseMove (Some 0) (Some 1000) \<lparr>ds_x = 100, ds_widths = [Fin 50, Fin 30, Fin 20]\<rparr> (Fin 15) 300
     = Some [Fin 65, Fin 15, Fin 20]"
  by (simp add: handleMouseMove_def js_nth_def js_set_def js_sub_def clamp_def double_eval)

lemma sample_doubles: "nearest64 80 = 80" "nearest64 15 = 15" "nearest64 65 = 65"
  by (simp_all add: double_eval)

text \<open>
  The theorem on three panes of 50, 30 and 20 percent, a container 1000 pixels wide and
  the first handle dragged 200 pixels to the right with a minimum of 15: the left pane
  stops at 65, the right one at 15, the third pane keeps its 20; here 15 and 80 - 15 are
  doubles.
\<close>

theorem handleMouseMove_frame_witness:
  "handleMouseMove (Some 0) (Some 1000) \<lparr>ds_x = 100, ds_widths = [Fin 50, Fin 30, Fin 20]\<rparr> (Fin 15) 300
     = Some [Fin 65, Fin 15, Fin 20] \<and> 0 + 1 < length [50, 30, 20 :: real] \<and> (1000 :: real) \<noteq> 0 \<and>
   \<bar>[50, 30, 20 :: real] ! 0\<bar> \<le> 2 ^ 1000 \<and> \<bar>[50, 30, 20 :: real] ! (0 + 1)\<bar> \<le> 2 ^ 1000 \<and>
   \<bar>15 :: real\<bar> \<le> 2 ^ 1000 \<and>
   nearest64 ([50, 30, 20] ! 0 + [50, 30, 20] ! (0 + 1)) = 80 \<and> (2 * 15 :: real) \<le> 80 \<and>
   nearest64 15 = 15 \<and> nearest64 (80 - 15) = 80 - 15 \<and>
   (15 :: real) = of_nat 15 \<and> (80 :: real) < 2 ^ 53"
  using handleMouseMove_frame [of 0 "[50, 30, 20]" 1000 15 100 300]
  by (simp add: sample_drag sample_doubles)

end
